theory Spec2Isabelle
  imports Main "HOL-Library.Word"
begin

section \<open>Strings of the core library\<close>

text \<open>
  The servers handle octet strings (the class EString) and a read buffer (the class
  Buffer).  Both are modelled as \<^typ>\<open>string\<close>, a list of octets.  The classes
  themselves are not among the sources; the few members the servers call are
  modelled here.
\<close>

abbreviation NUL :: char where "NUL \<equiv> CHR 0x00"
abbreviation CR :: char where "CR \<equiv> CHR 0x0D"
abbreviation LF :: char where "LF \<equiv> CHR 0x0A"

definition CRLF :: string where
  "CRLF = [CR, LF]"

text \<open>
  Modelled from the spec: EString::operator[] is not in the sources.  The callers read
  one position past the end (\<open>s[i+1]\<close> in SmtpClient::dotted, \<open>l[4]\<close> on a short
  reply line) and rely on getting a NUL octet there.
\<close>

definition at :: "string \<Rightarrow> nat \<Rightarrow> char" where
  "at s i = (if i < length s then s ! i else NUL)"

text \<open>
  Modelled from the spec: EString::mid is not in the sources.  \<open>mid s i n\<close> is the
  substring of at most \<open>n\<close> octets that starts at position \<open>i\<close>, and \<open>mid_from s i\<close>
  the one-argument form, the rest of the string from position \<open>i\<close>.
\<close>

definition mid :: "string \<Rightarrow> nat \<Rightarrow> nat \<Rightarrow> string" where
  "mid s i n = take n (drop i s)"

definition mid_from :: "string \<Rightarrow> nat \<Rightarrow> string" where
  "mid_from s i = drop i s"

text \<open>
  Modelled from the spec: EString::find is not in the sources.  It returns the position
  of the first occurrence of an octet, or -1 when there is none.
\<close>

fun find_from :: "char \<Rightarrow> string \<Rightarrow> int \<Rightarrow> int" where
  "find_from c [] i = -1"
| "find_from c (x # xs) i = (if x = c then i else find_from c xs (i + 1))"

definition find_char :: "string \<Rightarrow> char \<Rightarrow> int" where
  "find_char s c = find_from c s 0"

text \<open>
  Modelled from the spec: EString::number is not in the sources.  The spec gives the
  numeric form \<open>number\<close> the range 0 to 2^32-1: the conversion succeeds on a non-empty
  string of decimal digits whose value fits an unsigned 32-bit integer, and fails
  (\<open>ok = false\<close>, here \<open>None\<close>) otherwise.
\<close>

definition is_digit :: "char \<Rightarrow> bool" where
  "is_digit c = ((of_char (CHR ''0'') :: nat) \<le> of_char c \<and>
     (of_char c :: nat) \<le> of_char (CHR ''9''))"

definition digit_val :: "char \<Rightarrow> nat" where
  "digit_val c = of_char c - of_char (CHR ''0'')"

fun decimal :: "nat \<Rightarrow> string \<Rightarrow> nat" where
  "decimal acc [] = acc"
| "decimal acc (c # cs) = decimal (10 * acc + digit_val c) cs"

definition number :: "string \<Rightarrow> nat option" where
  "number s =
     (if s = [] \<or> \<not> list_all is_digit s then None
      else if decimal 0 s < 2 ^ 32 then Some (decimal 0 s) else None)"

text \<open>
  Modelled from the spec: EStringList::split is not in the sources.  \<open>split c s\<close> cuts
  \<open>s\<close> at every occurrence of the separator \<open>c\<close>; a string with \<open>n\<close> separators
  gives \<open>n + 1\<close> fields, empty fields included.
\<close>

fun split :: "char \<Rightarrow> string \<Rightarrow> string list" where
  "split c [] = [[]]"
| "split c (x # xs) =
     (if x = c then [] # split c xs
      else (x # hd (split c xs)) # tl (split c xs))"


section \<open>SASL PLAIN (sasl/plain.cpp)\<close>

text \<open>
  The states of a SASL mechanism that Plain uses.  The mechanism object carries the
  state, the login name and the secret; \<open>setState\<close>, \<open>setLogin\<close> and \<open>setSecret\<close>
  are field updates.
\<close>

datatype SaslState =
  AwaitingInitialResponse | AwaitingResponse | Authenticating | Succeeded | Failed

record SaslMechanism =
  sasl_state :: SaslState
  login :: string
  secret :: string

text \<open>
  Plain::parse.  The three reference parameters are returned together with the result;
  the caller passes three empty strings, which stay as they are when the field count is
  not three.
\<close>

definition Plain_parse :: "string \<Rightarrow> bool \<times> string \<times> string \<times> string" where
  "Plain_parse response =
     (let l = split NUL response in
      if length l \<noteq> 3 then (False, [], [], [])
      else
        let authorizeId = l ! 0; authenticateId = l ! 1; pw = l ! 2 in
        if authenticateId = [] \<or> pw = [] then (False, authorizeId, authenticateId, pw)
        else if authorizeId = [] then (True, authenticateId, authenticateId, pw)
        else (True, authorizeId, authenticateId, pw))"

text \<open>
  Plain::parseResponse.  The final call of \<open>execute()\<close>, which checks the credentials
  against the database, is the parameter \<open>exec\<close>.
\<close>

definition Plain_parseResponse ::
  "(SaslMechanism \<Rightarrow> SaslMechanism) \<Rightarrow> SaslMechanism \<Rightarrow> string \<Rightarrow> SaslMechanism" where
  "Plain_parseResponse exec m response =
     (case Plain_parse response of (ok, authorizeId, authenticateId, secret') \<Rightarrow>
        if \<not> ok \<or> authenticateId \<noteq> authorizeId then m\<lparr>sasl_state := Failed\<rparr>
        else exec (m\<lparr>sasl_state := Authenticating, login := authenticateId,
                      secret := secret'\<rparr>))"


text \<open>
  The specification's reading of a PLAIN response: three fields separated by NUL octets,
  none of which contains a NUL.
\<close>

definition three_fields :: "string \<Rightarrow> string \<Rightarrow> string \<Rightarrow> string \<Rightarrow> bool" where
  "three_fields r a u p \<longleftrightarrow>
     r = a @ NUL # u @ NUL # p \<and> NUL \<notin> set a \<and> NUL \<notin> set u \<and> NUL \<notin> set p"


section \<open>Client capabilities of an IMAP connection (IMAP::setClientSupports)\<close>

text \<open>
  The enumeration IMAP::ClientCapability is declared in a header that is not among the
  sources.  The code names two of its members, Condstore and QResync; every other member
  is \<open>OtherCapability n\<close>.  The array \<open>clientCapabilities\<close> is a function from the
  enumeration to bool, all false in a new connection (the constructor of IMAPData).
\<close>

datatype ClientCapability = Condstore | QResync | OtherCapability nat

type_synonym capabilities = "ClientCapability \<Rightarrow> bool"

definition initialCapabilities :: capabilities where
  "initialCapabilities = (\<lambda>c. False)"

definition clientSupports :: "capabilities \<Rightarrow> ClientCapability \<Rightarrow> bool" where
  "clientSupports caps capability = caps capability"

definition setClientSupports :: "capabilities \<Rightarrow> ClientCapability \<Rightarrow> capabilities" where
  "setClientSupports caps capability =
     (let caps' = caps(capability := True) in
      if capability = QResync then caps'(Condstore := True) else caps')"

text \<open>
  setClientSupports is the only function that writes the array, so the capabilities of a
  connection at any moment are the result of a sequence of such calls.
\<close>

fun setAll :: "capabilities \<Rightarrow> ClientCapability list \<Rightarrow> capabilities" where
  "setAll caps [] = caps"
| "setAll caps (c # cs) = setAll (setClientSupports caps c) cs"


section \<open>The outbound SMTP client (class SmtpClient)\<close>

subsection \<open>SmtpClient::dotted\<close>

text \<open>
  SmtpClient::dotted walks over the message with an index \<open>i\<close> and a flag \<open>sol\<close>
  (start of line), appending to the result \<open>r\<close>.  \<open>dotted_from sol s\<close> is what the
  loop and the two statements after it append when the unread part of the message is
  \<open>s\<close>.  The test \<open>s[i+1] == '\n'\<close> reads a NUL octet past the end of the string,
  so a CR at the very end is a lone CR.
\<close>

fun dotted_from :: "bool \<Rightarrow> string \<Rightarrow> string" where
  "dotted_from sol [] = (if \<not> sol then CRLF else []) @ ''.'' @ CRLF"
| "dotted_from sol (c # cs) =
     (if c = CR then
        CRLF @ (case cs of
                  [] \<Rightarrow> dotted_from True []
                | d # ds \<Rightarrow> if d = LF then dotted_from True ds else dotted_from True (d # ds))
      else if c = LF then CRLF @ dotted_from True cs
      else (if sol \<and> c = CHR ''.'' then ''.'' else []) @ c # dotted_from False cs)"

definition dotted :: "string \<Rightarrow> string" where
  "dotted s = dotted_from True s"

text \<open>
  The specification's description of the same function: the message is cut into lines
  at every CRLF pair, lone CR and lone LF; a line that begins with a dot gets one more
  dot; every line is terminated by CRLF (so an unterminated last line gets one), and
  a dot and CRLF end the text.
\<close>

fun split_lines :: "string \<Rightarrow> string \<Rightarrow> string list" where
  "split_lines cur [] = (if cur = [] then [] else [cur])"
| "split_lines cur (c # cs) =
     (if c = CR then
        cur # (case cs of
                 [] \<Rightarrow> split_lines [] []
               | d # ds \<Rightarrow> if d = LF then split_lines [] ds else split_lines [] (d # ds))
      else if c = LF then cur # split_lines [] cs
      else split_lines (cur @ [c]) cs)"

definition stuff :: "string \<Rightarrow> string" where
  "stuff l = (case l of [] \<Rightarrow> [] | c # cs \<Rightarrow> if c = CHR ''.'' then CHR ''.'' # l else l)"

definition dotted_spec :: "string \<Rightarrow> string" where
  "dotted_spec s = concat (map (\<lambda>l. stuff l @ CRLF) (split_lines [] s)) @ ''.'' @ CRLF"

text \<open>
  Modelled from the spec: the receiving side of DATA (dot-unstuffing) is not in the
  sources.  The spec says that DATA is terminated by CRLF, dot, CRLF with dot-stuffing
  on input: the receiver reads CRLF-terminated lines, stops at the line that consists
  of a single dot, and removes the first dot of any other line that begins with one.
  \<open>undot cur s\<close> is the body read when \<open>cur\<close> is the part of the current line
  read so far; there is no result (\<open>None\<close>) when the terminating line does not come.
\<close>

definition unstuff :: "string \<Rightarrow> string" where
  "unstuff l = (case l of [] \<Rightarrow> [] | c # cs \<Rightarrow> if c = CHR ''.'' then cs else l)"

fun undot :: "string \<Rightarrow> string \<Rightarrow> string option" where
  "undot cur (c # d # ds) =
     (if c = CR \<and> d = LF then
        (if cur = ''.'' then Some []
         else map_option (\<lambda>b. unstuff cur @ CRLF @ b) (undot [] ds))
      else undot (cur @ [c]) (d # ds))"
| "undot cur ds = None"

definition undotted :: "string \<Rightarrow> string option" where
  "undotted s = undot [] s"

text \<open>A body without bare CR or LF: every CR is followed by LF, every LF follows a CR.\<close>

fun no_bare :: "string \<Rightarrow> bool" where
  "no_bare [] = True"
| "no_bare [c] = (c \<noteq> CR \<and> c \<noteq> LF)"
| "no_bare (c # d # ds) =
     (if c = CR then d = LF \<and> no_bare ds else c \<noteq> LF \<and> no_bare (d # ds))"

text \<open>A body ends at a line boundary when it is empty or its last two octets are CRLF.\<close>

definition ends_line :: "string \<Rightarrow> bool" where
  "ends_line s = (s = [] \<or> (length s \<ge> 2 \<and> drop (length s - 2) s = CRLF))"

subsection \<open>Failures reported by the smarthost\<close>

text \<open>SmtpClientData::State, and the action of a Recipient (class Recipient).\<close>

datatype SmtpState =
  Invalid | Connected | Banner | Hello | MailFrom | RcptTo | Data | Body | Error | Rset | Quit

datatype Action = Unknown | Failed | Delayed | Relayed | Delivered | Expanded

record Recipient =
  finalRecipient :: string
  action :: Action
  status :: string

text \<open>Recipient::setAction records the action and the status together.\<close>

definition setAction :: "Action \<Rightarrow> string \<Rightarrow> Recipient \<Rightarrow> Recipient" where
  "setAction a s r = r\<lparr>action := a, status := s\<rparr>"

text \<open>
  The part of SmtpClientData that failure handling reads and writes: the state, the
  recipients of the DSN being sent (\<open>None\<close> for a null \<open>dsn\<close>), the position of the
  iterator \<open>rcptTo\<close> in that list, and whether the server announced
  ENHANCEDSTATUSCODES.
\<close>

record SmtpClientData =
  state :: SmtpState
  dsn :: "Recipient list option"
  rcptTo :: nat
  enhancedstatuscodes :: bool

text \<open>The function \<open>fn\<close> of the core library prints a number in decimal.\<close>

definition digit_char :: "nat \<Rightarrow> char" where
  "digit_char n = char_of (of_char (CHR ''0'') + n)"

fun fn :: "nat \<Rightarrow> string" where
  "fn n = (if n < 10 then [digit_char n] else fn (n div 10) @ [digit_char (n mod 10)])"

text \<open>The switch of enhancedStatus over the reply code.\<close>

definition statusTable :: "nat \<Rightarrow> SmtpState \<Rightarrow> string" where
  "statusTable response s =
     (if response = 211 then ''2.0.0''
      else if response = 214 then ''2.0.0''
      else if response = 220 then ''2.0.0''
      else if response = 221 then ''2.0.0''
      else if response = 250 then (if s = MailFrom \<or> s = RcptTo then ''2.1.0'' else ''2.0.0'')
      else if response = 251 then ''2.1.0''
      else if response = 252 then ''2.0.0''
      else if response = 354 then ''2.0.0''
      else if response = 421 then ''4.3.0''
      else if response = 450 then ''4.2.0''
      else if response = 451 then ''4.2.0''
      else if response = 452 then ''4.2.0''
      else if response = 500 then ''4.3.0''
      else if response = 501 then ''4.3.0''
      else if response = 502 then ''4.3.0''
      else if response = 503 then ''4.3.0''
      else if response = 504 then ''4.3.0''
      else if response = 550 then ''5.2.0''
      else if response = 551 then ''5.2.0''
      else if response = 552 then ''5.3.0''
      else if response = 553 then ''5.2.0''
      else if response = 554 then ''5.0.0''
      else fn (response div 100) @ ''.0.0'')"

text \<open>
  The static function enhancedStatus.  Its first test compares the octet \<open>l[4]\<close> with
  the digits 2 and 5 and joins the two comparisons with \<open>||\<close>, as the source does.
  The position \<open>i\<close> of the first space is counted in \<open>l.mid(4)\<close>, that is from the
  start of the status, and the source then returns \<open>l.mid(4, i-4)\<close>.
\<close>

definition enhancedStatus :: "string \<Rightarrow> bool \<Rightarrow> SmtpState \<Rightarrow> string" where
  "enhancedStatus l e s =
     (let i = find_char (mid_from l 4) (CHR '' '') in
      if e \<and> ((of_char (at l 4) :: nat) \<ge> of_char (CHR ''2'') \<or>
               (of_char (at l 4) :: nat) \<le> of_char (CHR ''5'')) \<and>
         at l 5 = CHR ''.'' \<and> i > 5
      then mid l 4 (nat (i - 4))
      else
        (case number (mid l 0 3) of
           None \<Rightarrow> ''4.0.0''
         | Some response \<Rightarrow>
             if response < 200 \<or> response \<ge> 600 then ''4.0.0''
             else statusTable response s))"

text \<open>
  SmtpClient::handleFailure.  In state RcptTo it writes through the iterator \<open>rcptTo\<close>;
  the result is \<open>None\<close> when the iterator does not point to a recipient (the source
  would dereference a null pointer).  The closing call of sendCommand is the parameter
  \<open>sendCommand\<close>.
\<close>

definition failAll :: "bool \<Rightarrow> string \<Rightarrow> Recipient list \<Rightarrow> Recipient list" where
  "failAll permanent st rs =
     map (\<lambda>r. if action r = Unknown
               then (if permanent then setAction Failed st r else setAction Delayed st r)
               else r) rs"

definition handleFailure ::
  "(SmtpClientData \<Rightarrow> SmtpClientData) \<Rightarrow> SmtpClientData \<Rightarrow> string \<Rightarrow> SmtpClientData option" where
  "handleFailure sendCommand d line =
     (let st = enhancedStatus line (enhancedstatuscodes d) (state d);
          permanent = (at line 0 = CHR ''5'')
      in if state d = RcptTo then
           (case dsn d of
              None \<Rightarrow> None
            | Some rs \<Rightarrow>
                if rcptTo d < length rs then
                  Some (sendCommand (d\<lparr>dsn := Some (rs[rcptTo d :=
                     (if permanent then setAction Failed st (rs ! rcptTo d)
                      else setAction Delayed st (rs ! rcptTo d))])\<rparr>))
                else None)
         else
           Some (sendCommand (d\<lparr>dsn := map_option (failAll permanent st) (dsn d),
                                  state := Error\<rparr>)))"

section \<open>The spool manager (smtp/spoolmanager.cpp)\<close>

text \<open>
  The query of a queue run is asynchronous: it is created pending, and the database later
  delivers its rows (message, delay) and calls the owner's \<open>execute()\<close>.
\<close>

datatype Query = Pending | Done "(nat \<times> int) list"

text \<open>A delivery agent is known to the manager by \<open>messageId()\<close>.\<close>

record DeliveryAgent =
  messageId :: nat

text \<open>
  SpoolManagerData: the query \<open>q\<close>, the timer \<open>t\<close> (its delay in seconds), the
  agents and the flag \<open>again\<close>.
\<close>

record SpoolManagerData =
  sm_q :: "Query option"
  sm_t :: "nat option"
  sm_agents :: "DeliveryAgent list"
  sm_again :: bool

text \<open>What a call does besides changing the manager's fields.\<close>

datatype SpoolEvent =
  QueryStarted "nat list"
| AgentSpawned nat nat
| TimerArmed nat
| TimerDeleted


definition UINT_MAX :: int where
  "UINT_MAX = 4294967295"

text \<open>SpoolManager::reset.\<close>

definition SpoolManager_reset :: "SpoolManagerData \<Rightarrow> SpoolManagerData \<times> SpoolEvent list" where
  "SpoolManager_reset d =
     (d\<lparr>sm_t := (if sm_again d then Some 1 else None), sm_q := None\<rparr>,
      (if sm_t d \<noteq> None then [TimerDeleted] else []) @
      (if sm_again d then [TimerArmed 1] else []))"

text \<open>
  The loop of SpoolManager::execute over the rows of the finished query.  \<open>delay\<close> is
  the unsigned variable of that name, compared with the 64-bit \<open>deliverableAt\<close>; it
  only ever takes values between 1 and UINT_MAX.  The start of a new agent is delayed by
  \<open>d->agents.count() * 5\<close> seconds.
\<close>

fun processRows ::
  "(nat \<times> int) list \<Rightarrow> DeliveryAgent list \<Rightarrow> int \<Rightarrow>
   DeliveryAgent list \<times> int \<times> SpoolEvent list" where
  "processRows [] ags delay = (ags, delay, [])"
| "processRows ((message, deliverableAt) # rs) ags delay =
     (if deliverableAt \<le> 0 then
        (case processRows rs (ags @ [\<lparr>messageId = message\<rparr>]) delay of
           (ags', delay', ev) \<Rightarrow> (ags', delay', AgentSpawned message (length ags * 5) # ev))
      else if delay > deliverableAt then processRows rs ags deliverableAt
      else processRows rs ags delay)"

text \<open>
  SpoolManager::execute.  \<open>working\<close> tells which agents answer true to
  \<open>working()\<close> at the time of the call.
\<close>

definition SpoolManager_execute ::
  "(DeliveryAgent \<Rightarrow> bool) \<Rightarrow> SpoolManagerData \<Rightarrow> SpoolManagerData \<times> SpoolEvent list" where
  "SpoolManager_execute working d =
     (case sm_q d of
        None \<Rightarrow>
          \<comment> \<open>start a queue run; the new query is not done, so the call returns\<close>
          (let have = map messageId (filter working (sm_agents d));
               d1 = d\<lparr>sm_agents := filter working (sm_agents d), sm_again := False\<rparr>;
               (d2, ev) = SpoolManager_reset d1
           in (d2\<lparr>sm_q := Some Pending\<rparr>, ev @ [QueryStarted have]))
      | Some Pending \<Rightarrow> (d, [])
      | Some (Done rows) \<Rightarrow>
          if rows = [] then SpoolManager_reset d
          else
            (case processRows rows (sm_agents d) UINT_MAX of
               (ags, delay, ev) \<Rightarrow>
                 (let d1 = d\<lparr>sm_agents := ags,
                            sm_t := (if delay < UINT_MAX then Some (nat delay) else sm_t d),
                            sm_q := None\<rparr>;
                      ev1 = ev @ (if delay < UINT_MAX then [TimerArmed (nat delay)] else []);
                      (d2, ev2) = SpoolManager_reset d1
                  in (d2, ev1 @ ev2))))"




text \<open>
  The process: the manager objects ever created, the static pointer \<open>sm\<close> to the
  singleton (an index into the objects) and the static flag \<open>shutdown\<close>.  A manager
  that \<open>sm\<close> no longer points to still exists: it owns its query and its timers.
\<close>

record Process =
  managers :: "SpoolManagerData list"
  sm :: "nat option"
  shutdown :: bool

definition newSpoolManager :: SpoolManagerData where
  "newSpoolManager = \<lparr>sm_q = None, sm_t = None, sm_agents = [], sm_again = False\<rparr>"

text \<open>SpoolManager::setup.\<close>

definition SpoolManager_setup :: "Process \<Rightarrow> Process" where
  "SpoolManager_setup p =
     (if sm p \<noteq> None then p
      else p\<lparr>managers := managers p @ [newSpoolManager], sm := Some (length (managers p))\<rparr>)"

text \<open>SpoolManager::shutdown.\<close>

definition SpoolManager_shutdown :: "Process \<Rightarrow> Process" where
  "SpoolManager_shutdown p =
     p\<lparr>managers := (case sm p of
                      Some i \<Rightarrow> (managers p)[i := (managers p ! i)\<lparr>sm_t := None\<rparr>]
                    | None \<Rightarrow> managers p),
       sm := None, shutdown := True\<rparr>"

text \<open>
  The end of DeliveryAgent::execute (smtp/deliveryagent.cpp): once the transaction is
  done, a failed transaction shuts the spool manager down.
\<close>

definition DeliveryAgent_finish :: "bool \<Rightarrow> bool \<Rightarrow> Process \<Rightarrow> Process" where
  "DeliveryAgent_finish t_done t_failed p =
     (if \<not> t_done then p
      else if t_failed then SpoolManager_shutdown p
      else p)"

text \<open>
  The two ways a manager object is entered: the event loop calls \<open>execute()\<close> of
  manager \<open>i\<close> (a timer for it fires, or its query is done), and the database completes
  its pending query with rows.
\<close>

definition runManager :: "(DeliveryAgent \<Rightarrow> bool) \<Rightarrow> nat \<Rightarrow> Process \<Rightarrow> Process \<times> SpoolEvent list" where
  "runManager working i p =
     (if i < length (managers p) then
        (case SpoolManager_execute working (managers p ! i) of
           (d, ev) \<Rightarrow> (p\<lparr>managers := (managers p)[i := d]\<rparr>, ev))
      else (p, []))"

definition queryDone :: "(nat \<times> int) list \<Rightarrow> nat \<Rightarrow> Process \<Rightarrow> Process" where
  "queryDone rows i p =
     (if i < length (managers p) \<and> sm_q (managers p ! i) = Some Pending
      then p\<lparr>managers := (managers p)[i := (managers p ! i)\<lparr>sm_q := Some (Done rows)\<rparr>]\<rparr>
      else p)"

text \<open>
  The rows of a query result that are due, and the delays of those that are not.
\<close>

definition due :: "(nat \<times> int) list \<Rightarrow> (nat \<times> int) list" where
  "due rows = filter (\<lambda>(m, dl). dl \<le> 0) rows"

definition later_delays :: "(nat \<times> int) list \<Rightarrow> int list" where
  "later_delays rows = map snd (filter (\<lambda>(m, dl). 0 < dl) rows)"

section \<open>The IMAP server (class IMAP)\<close>

subsection \<open>Commands and responses\<close>

text \<open>
  The classes Command and ImapResponse are not among the sources.  The server reads the
  state, the name, the tag, the group, \<open>usesMsn()\<close> and \<open>ok()\<close> of a command, and
  \<open>meaningful()\<close>, \<open>changesMsn()\<close>, \<open>sent()\<close> and \<open>text()\<close> of a response.
\<close>

datatype CommandState = Unparsed | Blocked | Executing | Finished | Retired

record Command =
  c_tag :: string
  c_name :: string
  c_group :: nat
  c_state :: CommandState
  c_usesMsn :: bool
  c_ok :: bool

record ImapResponse =
  r_text :: string
  r_meaningful :: bool
  r_changesMsn :: bool
  r_sent :: bool

text \<open>
  The state of a connection (Connection::State), as far as the servers set it.
\<close>

datatype ConnectionState = Connection_Connected | Connection_Closing

text \<open>The state of an IMAP server (IMAP::State, RFC 3501 section 3).\<close>

datatype ImapState = NotAuthenticated | Authenticated | Selected | Logout

text \<open>
  The part of IMAPData (and of the Connection it extends) that the functions below use.
  \<open>i_connection\<close> is the state of the connection (\<open>Connection::state()\<close>),
  \<open>i_state\<close> the state of the IMAP server (\<open>IMAP::state()\<close>).
  \<open>i_user\<close> is \<open>None\<close> when \<open>user()\<close> is null and otherwise tells whether the user
  has an inbox; \<open>i_reader\<close> tells whether a command has reserved the input;
  \<open>i_added\<close> collects the command texts handed to addCommand, \<open>i_timers\<close> the delays
  of the BadBouncer timers created.  The counters and times are unsigned 32-bit values.
\<close>

record IMAPData =
  i_commands :: "Command list"
  i_responses :: "ImapResponse list"
  i_noUnsolicitedResponses :: bool
  i_writeBuffer :: string
  i_readBuffer :: string
  i_str :: string
  i_readingLiteral :: bool
  i_literalSize :: nat
  i_reader :: bool
  i_maybeProxy :: bool
  i_added :: "string list"
  i_syntaxErrors :: nat
  i_lastBadTime :: nat
  i_user :: "bool option"
  i_runningCommands :: bool
  i_timers :: "nat list"
  i_connection :: ConnectionState
  i_state :: ImapState
  i_bytesArrived :: nat

subsection \<open>IMAP::emitResponses\<close>

text \<open>IMAP::commands removes the retired commands at the head of the list.\<close>

definition commands :: "IMAPData \<Rightarrow> IMAPData" where
  "commands s = s\<lparr>i_commands := dropWhile (\<lambda>c. c_state c = Retired) (i_commands s)\<rparr>"

text \<open>
  The first loop of emitResponses, which stops as soon as \<open>cannot\<close> is set; the result
  is the pair (can, cannot).
\<close>

fun expungeScan :: "Command list \<Rightarrow> bool \<Rightarrow> bool \<times> bool" where
  "expungeScan [] can = (can, False)"
| "expungeScan (c # cs) can =
     (if c_state c = Executing \<and> c_name c = ''idle'' then expungeScan cs True
      else if c_state c = Executing then (can, True)
      else if c_group c = 2 \<or> c_group c = 3 then (can, True)
      else if c_usesMsn c \<and> c_name c \<noteq> ''copy'' then (can, True)
      else if c_state c = Finished \<and> c_tag c \<noteq> [] then expungeScan cs True
      else expungeScan cs can)"

definition canSendExpunge :: "Command list \<Rightarrow> bool" where
  "canSendExpunge cs = (case expungeScan cs False of (can, cannot) \<Rightarrow> if cannot then False else can)"

text \<open>
  The second loop: a response that is not meaningful is marked sent; a meaningful unsent
  one is written (unless its text is empty) and marked sent if \<open>can\<close> holds or it does
  not change MSNs; a sent response leaves the list.  The result is the list of responses
  that stay, the octets written, and \<open>any\<close>.
\<close>

fun emitLoop :: "bool \<Rightarrow> ImapResponse list \<Rightarrow> ImapResponse list \<times> string \<times> bool" where
  "emitLoop can [] = ([], [], False)"
| "emitLoop can (r # rs) =
     (case emitLoop can rs of (keep, out, any) \<Rightarrow>
        if \<not> r_meaningful r then (keep, out, any)
        else if \<not> r_sent r \<and> (can \<or> \<not> r_changesMsn r) then
          (keep, (if r_text r \<noteq> [] then ''* '' @ r_text r @ CRLF else []) @ out, True)
        else if r_sent r then (keep, out, any)
        else (r # keep, out, any))"

text \<open>
  IMAP::emitResponses.  The calls of \<open>checkUntaggedResponses()\<close> at its end are the
  parameter \<open>check\<close>, applied to every command when something was sent.
\<close>

definition emitResponses :: "(Command \<Rightarrow> Command) \<Rightarrow> IMAPData \<Rightarrow> IMAPData" where
  "emitResponses check s0 =
     (let s = commands s0 in
      if i_noUnsolicitedResponses s \<and> i_commands s = [] then s
      else
        (case emitLoop (canSendExpunge (i_commands s)) (i_responses s) of
           (keep, out, any) \<Rightarrow>
             s\<lparr>i_responses := keep,
               i_writeBuffer := i_writeBuffer s @ out,
               i_commands := (if any then map check (i_commands s) else i_commands s)\<rparr>))"

text \<open>The responses whose text emitResponses writes, in order.\<close>

definition written :: "IMAPData \<Rightarrow> ImapResponse list" where
  "written s0 =
     (let s = commands s0 in
      if i_noUnsolicitedResponses s \<and> i_commands s = [] then []
      else filter (\<lambda>r. r_meaningful r \<and> \<not> r_sent r \<and> r_text r \<noteq> [] \<and>
                        (canSendExpunge (i_commands s) \<or> \<not> r_changesMsn r))
             (i_responses s))"

text \<open>
  The conditions of the specification on a command: an IDLE that is executing; a
  finished command with a tag; and a command that forbids expunges (any other executing
  command, a command of group 2 or 3, a command that uses MSNs and is not copy).
\<close>

definition idleExecuting :: "Command \<Rightarrow> bool" where
  "idleExecuting c = (c_state c = Executing \<and> c_name c = ''idle'')"

definition finishedTagged :: "Command \<Rightarrow> bool" where
  "finishedTagged c = (c_state c = Finished \<and> c_tag c \<noteq> [])"

definition forbidsExpunge :: "Command \<Rightarrow> bool" where
  "forbidsExpunge c =
     (\<not> idleExecuting c \<and>
      (c_state c = Executing \<or> c_group c = 2 \<or> c_group c = 3 \<or>
       (c_usesMsn c \<and> c_name c \<noteq> ''copy'')))"

subsection \<open>The rate limit of IMAP::runCommands\<close>

text \<open>A conversion to \<open>int\<close>, a signed 32-bit integer, keeps the low 32 bits.\<close>

definition int32 :: "int \<Rightarrow> int" where
  "int32 x = (x + 2 ^ 31) mod 2 ^ 32 - 2 ^ 31"

text \<open>
  The computation of \<open>delayNeeded\<close>, from \<open>syntaxErrors()\<close>, \<open>lastBadTime\<close>, the
  result of \<open>time(0)\<close> and the user.
\<close>

definition delayNeeded :: "nat \<Rightarrow> nat \<Rightarrow> int \<Rightarrow> bool option \<Rightarrow> int" where
  "delayNeeded syntaxErrors lastBadTime now user =
     (let d0 = int32 (int syntaxErrors);
          d1 = (if d0 > 16 then 16 else d0);
          d2 = int32 (int32 (int32 (int lastBadTime) + d1) - int32 now);
          d3 = (if d2 < 0 then 0 else d2)
      in if user = Some False \<and> d3 < 4 then 4 else d3)"

text \<open>
  Starting a command: it is parsed if it is unparsed, finished if it is not ok, and
  otherwise moved from Unparsed or Blocked to Executing.  \<open>parse\<close> is the command's
  own parser.
\<close>

definition promote :: "(Command \<Rightarrow> Command) \<Rightarrow> Command \<Rightarrow> Command" where
  "promote parse c =
     (let c1 = (if c_state c = Unparsed then parse c else c) in
      if \<not> c_ok c1 then c1\<lparr>c_state := Finished\<rparr>
      else if c_state c1 = Unparsed \<or> c_state c1 = Blocked then c1\<lparr>c_state := Executing\<rparr>
      else c1)"

text \<open>
  The loop over the followers of the leading command \<open>first\<close>: it runs while the next
  command is in the state of \<open>first\<close>, and ends when it has blocked a command of another
  group.
\<close>

fun followers :: "(Command \<Rightarrow> Command) \<Rightarrow> Command \<Rightarrow> Command list \<Rightarrow> Command list" where
  "followers parse first [] = []"
| "followers parse first (c # cs) =
     (if c_state first = c_state c then
        (let c1 = promote parse c in
         if c_group c1 \<noteq> c_group first \<and> c_state c1 = Executing
         then c1\<lparr>c_state := Blocked\<rparr> # cs
         else c1 # followers parse first cs)
      else c # cs)"

text \<open>
  The start of new commands.  When the first command is retired the iterator is not
  advanced, so the loop over the followers begins with the first command itself.
\<close>

definition startCommands :: "(Command \<Rightarrow> Command) \<Rightarrow> Command list \<Rightarrow> Command list" where
  "startCommands parse cs =
     (case cs of
        [] \<Rightarrow> []
      | first # rest \<Rightarrow>
          if c_state first \<noteq> Retired then
            (let f1 = promote parse first in
             if c_state f1 = Executing \<and> c_group f1 \<noteq> 0 then f1 # followers parse f1 rest
             else f1 # rest)
          else if c_group first \<noteq> 0 then
            (let f1 = (if \<not> c_ok first then first\<lparr>c_state := Finished\<rparr> else first) in
             f1 # followers parse f1 rest)
          else first # rest)"

text \<open>
  The body of the loop of IMAP::runCommands from the rate limit on, that is after the
  executing commands have run and the finished ones at the head have been retired.
  The result tells whether runCommands returns here (\<open>True\<close>: a BadBouncer timer has
  been created and no command is started) or goes on.
\<close>

definition rateLimitedStart ::
  "(Command \<Rightarrow> Command) \<Rightarrow> int \<Rightarrow> IMAPData \<Rightarrow> IMAPData \<times> bool" where
  "rateLimitedStart parse now s =
     (let delay = delayNeeded (i_syntaxErrors s) (i_lastBadTime s) now (i_user s) in
      if delay > 0 \<and> i_commands s \<noteq> [] then
        (s\<lparr>i_timers := i_timers s @ [nat delay], i_runningCommands := False\<rparr>, True)
      else (s\<lparr>i_commands := startCommands parse (i_commands s)\<rparr>, False))"

text \<open>
  A new connection, as the constructor of IMAPData initialises it: no commands, no
  responses, nothing read, and the PROXY leader still possible.
\<close>

definition newIMAPData :: IMAPData where
  "newIMAPData =
     \<lparr>i_commands = [], i_responses = [], i_noUnsolicitedResponses = False,
      i_writeBuffer = [], i_readBuffer = [], i_str = [], i_readingLiteral = False,
      i_literalSize = 0, i_reader = False, i_maybeProxy = True, i_added = [],
      i_syntaxErrors = 0, i_lastBadTime = 0, i_user = None, i_runningCommands = False,
      i_timers = [], i_connection = Connection_Connected, i_state = NotAuthenticated,
      i_bytesArrived = 0\<rparr>"

subsection \<open>Reading lines and literals\<close>

text \<open>
  Modelled from the spec: Buffer::removeLine is not in the sources.  The spec says that
  lines are CRLF-terminated and that a command line has at most 4096 octets.
  \<open>removeLine limit b\<close> looks for the first CRLF that lies within the first
  \<open>limit\<close> octets of the buffer (within the whole buffer when \<open>limit\<close> is 0, the
  default) and returns the line before it and the buffer after it; without such a CRLF
  the result is \<open>None\<close> (a null pointer) and the buffer stays as it is.
\<close>

fun find_crlf :: "string \<Rightarrow> nat option" where
  "find_crlf (c # d # ds) =
     (if c = CR \<and> d = LF then Some 0 else map_option Suc (find_crlf (d # ds)))"
| "find_crlf ds = None"

definition removeLine :: "nat \<Rightarrow> string \<Rightarrow> (string \<times> string) option" where
  "removeLine limit b =
     (let s = (if limit = 0 \<or> limit > length b then length b else limit) in
      case find_crlf (take s b) of
        None \<Rightarrow> None
      | Some i \<Rightarrow> Some (take i b, drop (i + 2) b))"

text \<open>
  The static function endsWithLiteral.  The index \<open>i\<close> is an unsigned 32-bit integer:
  \<open>length - 2\<close> and \<open>i--\<close> wrap around, and reading the string at such a position
  gives NUL.  The result is the size of the literal and the flag \<open>plus\<close>, or \<open>None\<close>
  where the function returns false.
\<close>

fun skip_digits :: "string \<Rightarrow> nat \<Rightarrow> nat" where
  "skip_digits s 0 = 0"
| "skip_digits s (Suc i) = (if is_digit (at s (Suc i)) then skip_digits s i else Suc i)"

definition endsWithLiteral :: "string \<Rightarrow> (nat \<times> bool) option" where
  "endsWithLiteral s =
     (if s = [] \<or> last s \<noteq> CHR ''}'' then None
      else
        (let i0 = (length s + 2 ^ 32 - 2) mod 2 ^ 32;
             plus' = (at s i0 = CHR ''+'');
             j = (if plus' then (i0 + 2 ^ 32 - 1) mod 2 ^ 32 else i0);
             i = skip_digits s j
         in if at s i \<noteq> CHR ''{'' then None
            else (case number (mid s (i + 1) (j - i)) of
                    None \<Rightarrow> None
                  | Some n \<Rightarrow> Some (n, plus'))))"

text \<open>
  IMAP::maybeParseProxyLeader: the signature of PROXY version 2, and the header of at
  most \<open>sizeof(Hdr)\<close> = 232 octets.  The result tells whether parsing may continue.
  The addresses that a PROXY command sets are not part of the model.
\<close>

definition v2sig :: string where
  "v2sig = [CHR 0x0D, CHR 0x0A, CHR 0x0D, CHR 0x0A, CHR 0x00, CHR 0x0D, CHR 0x0A,
            CHR 0x51, CHR 0x55, CHR 0x49, CHR 0x54, CHR 0x0A]"

definition maybeParseProxyLeader :: "IMAPData \<Rightarrow> bool \<times> IMAPData" where
  "maybeParseProxyLeader s =
     (let r = i_readBuffer s in
      if \<not> i_maybeProxy s then (True, s)
      else if length r < 16 then (False, s)
      else
        (let n = min 232 (length r) in
         if take 12 r \<noteq> v2sig then (True, s\<lparr>i_maybeProxy := False\<rparr>)
         else if (of_char (r ! 12) :: nat) div 16 \<noteq> 2 then (True, s\<lparr>i_maybeProxy := False\<rparr>)
         else
           (let size = 16 + (of_char (r ! 14) * 256 + of_char (r ! 15)) in
            if n < size then (False, s)
            else (True, s\<lparr>i_readBuffer := drop size r, i_maybeProxy := False\<rparr>))))"

text \<open>
  The loop of IMAP::parse.  \<open>limit\<close> is \<open>ImapParser::literalSizeLimit()\<close>.  A command
  that has reserved the input is fed by \<open>read()\<close>; the parameter \<open>rd\<close> tells, for the
  buffer it sees, how many octets it takes and whether it keeps the input reserved.
  addCommand is called with the text collected in \<open>str\<close>, which the model records in
  \<open>i_added\<close>.
\<close>

definition readLine :: "nat \<Rightarrow> string \<Rightarrow> string \<Rightarrow> IMAPData \<Rightarrow> IMAPData" where
  "readLine limit line rest s =
     (let s1 = s\<lparr>i_readBuffer := rest, i_str := i_str s @ line\<rparr>;
          s2 = (case endsWithLiteral line of
                  None \<Rightarrow> s1
                | Some (n, plus') \<Rightarrow>
                    (let s' = s1\<lparr>i_str := i_str s1 @ CRLF\<rparr> in
                     if n \<le> limit then
                       s'\<lparr>i_readingLiteral := True, i_literalSize := n,
                          i_writeBuffer := i_writeBuffer s' @
                            (if \<not> plus' then ''+ reading literal'' @ CRLF else [])\<rparr>
                     else s'))
      in if \<not> i_readingLiteral s2
         then s2\<lparr>i_added := i_added s2 @ [i_str s2], i_str := []\<rparr>
         else s2)"

function parseLoop :: "nat \<Rightarrow> (string \<Rightarrow> nat \<times> bool) \<Rightarrow> IMAPData \<Rightarrow> IMAPData" where
  "parseLoop limit rd s =
     (if \<not> i_readingLiteral s \<and> \<not> i_reader s then
        (case removeLine 0 (i_readBuffer s) of
           None \<Rightarrow> s
         | Some (line, rest) \<Rightarrow> parseLoop limit rd (readLine limit line rest s))
      else if i_readingLiteral s then
        (if length (i_readBuffer s) < i_literalSize s then s
         else parseLoop limit rd
                (s\<lparr>i_str := i_str s @ take (i_literalSize s) (i_readBuffer s),
                   i_readBuffer := drop (i_literalSize s) (i_readBuffer s),
                   i_readingLiteral := False\<rparr>))
      else
        (case rd (i_readBuffer s) of (k, reserved) \<Rightarrow>
           if reserved then s\<lparr>i_readBuffer := drop k (i_readBuffer s)\<rparr>
           else parseLoop limit rd (s\<lparr>i_readBuffer := drop k (i_readBuffer s),
                                      i_reader := False\<rparr>)))"
  by pat_completeness auto

termination
proof (relation "measure (\<lambda>(limit, rd, s).
    2 * length (i_readBuffer s) + (if i_readingLiteral s then 1 else 0) +
    (if i_reader s then 1 else 0))", goal_cases)
  case 1
  show ?case by simp
next
  case (2 limit rd s x2 line rest)
  then have r: "removeLine 0 (i_readBuffer s) = Some (line, rest)" by simp
  have ne: "i_readBuffer s \<noteq> []"
  proof
    assume "i_readBuffer s = []"
    with r show False by (simp add: removeLine_def)
  qed
  from r obtain i where "rest = drop (i + 2) (i_readBuffer s)"
    by (auto simp: removeLine_def Let_def split: option.splits)
  with ne have l: "length rest < length (i_readBuffer s)" by (cases "i_readBuffer s") auto
  have b: "i_readBuffer (readLine limit line rest s) = rest"
    by (simp add: readLine_def Let_def split: option.splits prod.splits)
  have rd: "i_reader (readLine limit line rest s) = i_reader s"
    by (simp add: readLine_def Let_def split: option.splits prod.splits)
  from 2 l b rd show ?case by simp
next
  case (3 limit rd s)
  then show ?case by simp
next
  case 4
  then show ?case by simp
qed

declare parseLoop.simps [simp del]

text \<open>IMAP::parse: the PROXY leader, then the loop.\<close>

definition parse :: "nat \<Rightarrow> (string \<Rightarrow> nat \<times> bool) \<Rightarrow> IMAPData \<Rightarrow> IMAPData" where
  "parse limit rd s =
     (case maybeParseProxyLeader s of
        (cont, s1) \<Rightarrow> if \<not> cont then s1 else parseLoop limit rd s1)"

text \<open>
  IMAP::react for the event Read, up to its call of runCommands.  The octets in the
  read buffer are added to \<open>bytesArrived\<close>, an unsigned 32-bit counter, the input is
  parsed, and a client from which more than 32768 octets have arrived before it has
  logged in is sent away; a command that has reserved the input is then fed once more.
\<close>

definition feedReader :: "(string \<Rightarrow> nat \<times> bool) \<Rightarrow> IMAPData \<Rightarrow> IMAPData" where
  "feedReader rd s =
     (if i_reader s then
        (case rd (i_readBuffer s) of (k, reserved) \<Rightarrow>
           s\<lparr>i_readBuffer := drop k (i_readBuffer s), i_reader := reserved\<rparr>)
      else s)"

definition reactRead :: "nat \<Rightarrow> (string \<Rightarrow> nat \<times> bool) \<Rightarrow> IMAPData \<Rightarrow> IMAPData" where
  "reactRead limit rd s =
     (let s0 = s\<lparr>i_bytesArrived :=
                   (i_bytesArrived s + length (i_readBuffer s)) mod 2 ^ 32\<rparr>;
          s1 = parse limit rd s0
      in if i_bytesArrived s1 > 32768 \<and> i_state s1 = NotAuthenticated then
           feedReader rd
             (s1\<lparr>i_writeBuffer := i_writeBuffer s1 @ ''* BYE overlong login sequence'' @ CRLF,
                 i_connection := Connection_Closing\<rparr>)
         else s1)"

subsection \<open>Command lines of the SMTP server (SMTP::parseCommand)\<close>

text \<open>
  The part of the SMTP server that parseCommand uses: the buffers, the state of the
  connection and the lines for which SmtpCommand::create has been called.
\<close>

record SMTPData =
  s_readBuffer :: string
  s_writeBuffer :: string
  s_connection :: ConnectionState
  s_commands :: "string list"

definition parseCommand :: "SMTPData \<Rightarrow> SMTPData" where
  "parseCommand s =
     (case removeLine 4096 (s_readBuffer s) of
        None \<Rightarrow>
          if length (s_readBuffer s) > 4096 then
            s\<lparr>s_writeBuffer := s_writeBuffer s @
                 ''500 Line too long (legal maximum is 998 bytes)'' @ CRLF,
              s_connection := Connection_Closing\<rparr>
          else s
      | Some (line, rest) \<Rightarrow>
          s\<lparr>s_readBuffer := rest, s_commands := s_commands s @ [line]\<rparr>)"

section \<open>Theorems\<close>

subsection \<open>SASL PLAIN\<close>

lemma split_ne: "split c s \<noteq> []" "[] \<noteq> split c s"
  by (induction s) auto

lemma split_no_sep: "c \<notin> set s \<Longrightarrow> split c s = [s]"
  by (induction s) auto

lemma split_append: "c \<notin> set a \<Longrightarrow> split c (a @ c # b) = a # split c b"
  by (induction a) auto

lemma split_concat:
  "\<exists>a. c \<notin> set a \<and> (s = a \<and> split c s = [a] \<or>
       (\<exists>b. s = a @ c # b \<and> split c s = a # split c b))"
proof (induction s)
  case Nil then show ?case by simp
next
  case (Cons x xs)
  show ?case
  proof (cases "x = c")
    case True
    then show ?thesis by (intro exI[of _ "[]"]) simp
  next
    case False
    from Cons obtain a where a: "c \<notin> set a"
      "xs = a \<and> split c xs = [a] \<or> (\<exists>b. xs = a @ c # b \<and> split c xs = a # split c b)"
      by blast
    show ?thesis using a False
      by (intro exI[of _ "x # a"]) auto
  qed
qed

lemma split_Cons_iff:
  "split c s = a # r \<longleftrightarrow>
   c \<notin> set a \<and> (s = a \<and> r = [] \<or> (\<exists>b. s = a @ c # b \<and> split c b = r))"
proof
  assume h: "split c s = a # r"
  from split_concat [of c s] obtain a' where a': "c \<notin> set a'"
    "s = a' \<and> split c s = [a'] \<or> (\<exists>b. s = a' @ c # b \<and> split c s = a' # split c b)"
    by blast
  from a' h show "c \<notin> set a \<and> (s = a \<and> r = [] \<or> (\<exists>b. s = a @ c # b \<and> split c b = r))"
    by auto
next
  assume "c \<notin> set a \<and> (s = a \<and> r = [] \<or> (\<exists>b. s = a @ c # b \<and> split c b = r))"
  then show "split c s = a # r"
    by (auto simp: split_no_sep split_append)
qed

lemma split3:
  "split c s = [a, b, d] \<longleftrightarrow>
   (s = a @ c # b @ c # d \<and> c \<notin> set a \<and> c \<notin> set b \<and> c \<notin> set d)"
proof -
  have one: "\<And>t x. split c t = [x] \<longleftrightarrow> t = x \<and> c \<notin> set x"
    by (subst split_Cons_iff) (auto simp: split_ne)
  have two: "\<And>t x y. split c t = [x, y] \<longleftrightarrow> t = x @ c # y \<and> c \<notin> set x \<and> c \<notin> set y"
    by (subst split_Cons_iff) (auto simp: one split_ne)
  show ?thesis
    by (subst split_Cons_iff) (auto simp: two split_ne)
qed

lemma length3: "length l = 3 \<longleftrightarrow> (\<exists>a b d. l = [a, b, d])"
  by (auto simp: length_Suc_conv numeral_3_eq_3)

lemma Plain_parse_three:
  "split NUL r = [a, b, d] \<Longrightarrow>
   Plain_parse r = (if b = [] \<or> d = [] then (False, a, b, d)
                    else if a = [] then (True, b, b, d) else (True, a, b, d))"
  by (simp add: Plain_parse_def Let_def)

lemma Plain_parse_not_three:
  "length (split NUL r) \<noteq> 3 \<Longrightarrow> Plain_parse r = (False, [], [], [])"
  by (simp add: Plain_parse_def Let_def)

lemma Plain_parse_ok_iff:
  "Plain_parse r = (True, z, u, p) \<longleftrightarrow>
   (\<exists>a. split NUL r = [a, u, p] \<and> u \<noteq> [] \<and> p \<noteq> [] \<and> z = (if a = [] then u else a))"
proof
  assume ok: "Plain_parse r = (True, z, u, p)"
  have "length (split NUL r) = 3"
  proof (rule ccontr)
    assume "length (split NUL r) \<noteq> 3"
    then have "Plain_parse r = (False, [], [], [])" by (rule Plain_parse_not_three)
    with ok show False by simp
  qed
  then obtain a b d where l: "split NUL r = [a, b, d]"
    unfolding length3 by blast
  from ok have "b \<noteq> [] \<and> d \<noteq> [] \<and> u = b \<and> p = d \<and> z = (if a = [] then b else a)"
    unfolding Plain_parse_three [OF l] by (auto split: if_splits)
  with l show "\<exists>a. split NUL r = [a, u, p] \<and> u \<noteq> [] \<and> p \<noteq> [] \<and> z = (if a = [] then u else a)"
    by simp
next
  assume "\<exists>a. split NUL r = [a, u, p] \<and> u \<noteq> [] \<and> p \<noteq> [] \<and> z = (if a = [] then u else a)"
  then obtain a where l: "split NUL r = [a, u, p]" and ne: "u \<noteq> []" "p \<noteq> []"
    and z: "z = (if a = [] then u else a)" by blast
  show "Plain_parse r = (True, z, u, p)"
    unfolding Plain_parse_three [OF l] using ne z by simp
qed

lemma three_fields_split: "three_fields r a u p \<longleftrightarrow> split NUL r = [a, u, p]"
  unfolding three_fields_def split3 by simp

lemma Plain_parse_fails:
  "\<not> fst (Plain_parse r) \<Longrightarrow> Plain_parseResponse exec m r = m\<lparr>sasl_state := SaslState.Failed\<rparr>"
  by (cases "Plain_parse r") (simp add: Plain_parseResponse_def)

lemma Plain_parse_fields:
  "three_fields r a u p \<Longrightarrow>
   Plain_parse r = (if u = [] \<or> p = [] then (False, a, u, p)
                    else if a = [] then (True, u, u, p) else (True, a, u, p))"
  unfolding three_fields_split by (rule Plain_parse_three)

text \<open>
  Claim C10.  Plain::parse succeeds exactly when the response consists of three
  NUL-separated fields of which the second (authentication id) and the third (password)
  are not empty, and it then returns these fields, an empty authorization id replaced by
  the authentication id.  Plain::parseResponse goes to Failed and leaves login and secret
  as they were when parsing fails or a non-empty authorization id differs from the
  authentication id; otherwise it goes to Authenticating with the login and the secret
  set, and executes.
\<close>

theorem Plain_parse_correct:
  "(fst (Plain_parse r) \<longleftrightarrow> (\<exists>a u p. three_fields r a u p \<and> u \<noteq> [] \<and> p \<noteq> []))
   \<and> (three_fields r a u p \<and> u \<noteq> [] \<and> p \<noteq> [] \<longrightarrow>
        Plain_parse r = (True, if a = [] then u else a, u, p))
   \<and> (\<not> fst (Plain_parse r) \<or> (three_fields r a u p \<and> a \<noteq> [] \<and> a \<noteq> u) \<longrightarrow>
        Plain_parseResponse exec m r = m\<lparr>sasl_state := SaslState.Failed\<rparr>)
   \<and> (three_fields r a u p \<and> u \<noteq> [] \<and> p \<noteq> [] \<and> (a = [] \<or> a = u) \<longrightarrow>
        Plain_parseResponse exec m r =
          exec (m\<lparr>sasl_state := Authenticating, login := u, secret := p\<rparr>))"
proof (intro conjI impI)
  show "fst (Plain_parse r) \<longleftrightarrow> (\<exists>a u p. three_fields r a u p \<and> u \<noteq> [] \<and> p \<noteq> [])"
  proof
    assume "fst (Plain_parse r)"
    then obtain z u p where "Plain_parse r = (True, z, u, p)"
      by (cases "Plain_parse r") auto
    then obtain a where "split NUL r = [a, u, p]" "u \<noteq> []" "p \<noteq> []"
      unfolding Plain_parse_ok_iff by blast
    then show "\<exists>a u p. three_fields r a u p \<and> u \<noteq> [] \<and> p \<noteq> []"
      unfolding three_fields_split by blast
  next
    assume "\<exists>a u p. three_fields r a u p \<and> u \<noteq> [] \<and> p \<noteq> []"
    then obtain a u p where f: "three_fields r a u p" and ne: "u \<noteq> []" "p \<noteq> []" by blast
    show "fst (Plain_parse r)"
      unfolding Plain_parse_fields [OF f] using ne by simp
  qed
next
  assume h: "three_fields r a u p \<and> u \<noteq> [] \<and> p \<noteq> []"
  then have f: "three_fields r a u p" by simp
  show "Plain_parse r = (True, if a = [] then u else a, u, p)"
    unfolding Plain_parse_fields [OF f] using h by simp
next
  assume h: "\<not> fst (Plain_parse r) \<or> (three_fields r a u p \<and> a \<noteq> [] \<and> a \<noteq> u)"
  show "Plain_parseResponse exec m r = m\<lparr>sasl_state := SaslState.Failed\<rparr>"
  proof (cases "fst (Plain_parse r)")
    case False
    then show ?thesis by (rule Plain_parse_fails)
  next
    case True
    with h have f: "three_fields r a u p" and ne: "a \<noteq> []" "a \<noteq> u" by simp_all
    show ?thesis
      unfolding Plain_parseResponse_def Plain_parse_fields [OF f] using ne by simp
  qed
next
  assume h: "three_fields r a u p \<and> u \<noteq> [] \<and> p \<noteq> [] \<and> (a = [] \<or> a = u)"
  then have f: "three_fields r a u p" by simp
  show "Plain_parseResponse exec m r =
      exec (m\<lparr>sasl_state := Authenticating, login := u, secret := p\<rparr>)"
    unfolding Plain_parseResponse_def Plain_parse_fields [OF f] using h by auto
qed

theorem Plain_parse_correct_witness:
  "fst (Plain_parse (NUL # ''u'' @ NUL # ''secr''))
   \<and> Plain_parse (NUL # ''u'' @ NUL # ''secr'') = (True, ''u'', ''u'', ''secr'')
   \<and> Plain_parseResponse id \<lparr>sasl_state = AwaitingInitialResponse, login = [], secret = []\<rparr>
        (NUL # ''u'' @ NUL # ''secr'')
       = \<lparr>sasl_state = Authenticating, login = ''u'', secret = ''secr''\<rparr>
   \<and> Plain_parseResponse id \<lparr>sasl_state = AwaitingInitialResponse, login = [], secret = []\<rparr>
        (''root'' @ NUL # ''u'' @ NUL # ''secr'')
       = \<lparr>sasl_state = SaslState.Failed, login = [], secret = []\<rparr>"
proof -
  have a: "three_fields (NUL # ''u'' @ NUL # ''secr'') [] ''u'' ''secr''"
    by (simp add: three_fields_def)
  have b: "three_fields (''root'' @ NUL # ''u'' @ NUL # ''secr'') ''root'' ''u'' ''secr''"
    by (simp add: three_fields_def)
  have c: "''root'' \<noteq> ''u''" by simp
  note t1 = Plain_parse_correct [of "NUL # ''u'' @ NUL # ''secr''" "[]" "''u''" "''secr''" id
        "\<lparr>sasl_state = AwaitingInitialResponse, login = [], secret = []\<rparr>"]
  note t2 = Plain_parse_correct [of "''root'' @ NUL # ''u'' @ NUL # ''secr''" "''root''" "''u''"
        "''secr''" id "\<lparr>sasl_state = AwaitingInitialResponse, login = [], secret = []\<rparr>"]
  have 1: "fst (Plain_parse (NUL # ''u'' @ NUL # ''secr''))"
    using t1 a by blast
  have 2: "Plain_parse (NUL # ''u'' @ NUL # ''secr'') = (True, ''u'', ''u'', ''secr'')"
    using t1 a by simp
  have 3: "Plain_parseResponse id \<lparr>sasl_state = AwaitingInitialResponse, login = [], secret = []\<rparr>
        (NUL # ''u'' @ NUL # ''secr'')
       = \<lparr>sasl_state = Authenticating, login = ''u'', secret = ''secr''\<rparr>"
    using t1 a by simp
  have 4: "Plain_parseResponse id \<lparr>sasl_state = AwaitingInitialResponse, login = [], secret = []\<rparr>
        (''root'' @ NUL # ''u'' @ NUL # ''secr'')
       = \<lparr>sasl_state = SaslState.Failed, login = [], secret = []\<rparr>"
    using t2 b c by simp
  from 1 2 3 4 show ?thesis by blast
qed

subsection \<open>Client capabilities\<close>

lemma setClientSupports_keeps:
  "clientSupports caps c \<Longrightarrow> clientSupports (setClientSupports caps d) c"
  by (simp add: clientSupports_def setClientSupports_def Let_def)

lemma setClientSupports_sets: "clientSupports (setClientSupports caps c) c"
  by (simp add: clientSupports_def setClientSupports_def Let_def)

lemma setAll_keeps:
  "clientSupports caps c \<Longrightarrow> clientSupports (setAll caps cs) c"
  by (induction cs arbitrary: caps) (simp_all add: setClientSupports_keeps)

lemma setClientSupports_inv:
  "(clientSupports caps QResync \<longrightarrow> clientSupports caps Condstore) \<Longrightarrow>
   clientSupports (setClientSupports caps d) QResync \<longrightarrow>
   clientSupports (setClientSupports caps d) Condstore"
  by (auto simp: clientSupports_def setClientSupports_def Let_def)

lemma setAll_inv:
  "(clientSupports caps QResync \<longrightarrow> clientSupports caps Condstore) \<Longrightarrow>
   clientSupports (setAll caps cs) QResync \<longrightarrow> clientSupports (setAll caps cs) Condstore"
proof (induction cs arbitrary: caps)
  case Nil
  then show ?case by simp
next
  case (Cons d ds)
  from Cons.prems have "clientSupports (setClientSupports caps d) QResync \<longrightarrow>
      clientSupports (setClientSupports caps d) Condstore"
    by (rule setClientSupports_inv)
  then show ?case using Cons.IH by simp
qed

text \<open>
  Claim C9.  Client capability flags are monotone: after \<open>setClientSupports c\<close>, whatever
  calls came before and whatever calls follow on the connection, \<open>clientSupports c\<close> is
  true; and in every state a connection reaches from its initial one, support for QResync
  implies support for Condstore.
\<close>

theorem capabilities_monotone:
  "clientSupports (setAll (setClientSupports (setAll initialCapabilities before) c) after) c
   \<and> (clientSupports (setAll initialCapabilities cs) QResync \<longrightarrow>
      clientSupports (setAll initialCapabilities cs) Condstore)"
proof
  show "clientSupports
      (setAll (setClientSupports (setAll initialCapabilities before) c) after) c"
    by (rule setAll_keeps) (rule setClientSupports_sets)
next
  have "clientSupports initialCapabilities QResync \<longrightarrow>
        clientSupports initialCapabilities Condstore"
    by (simp add: clientSupports_def initialCapabilities_def)
  then show "clientSupports (setAll initialCapabilities cs) QResync \<longrightarrow>
      clientSupports (setAll initialCapabilities cs) Condstore"
    by (rule setAll_inv)
qed

theorem capabilities_monotone_witness:
  "clientSupports (setAll (setClientSupports (setAll initialCapabilities
       [OtherCapability 1]) QResync) [OtherCapability 2]) QResync
   \<and> clientSupports (setAll initialCapabilities [OtherCapability 1, QResync]) QResync
   \<and> clientSupports (setAll initialCapabilities [OtherCapability 1, QResync]) Condstore"
proof -
  have q: "clientSupports (setAll initialCapabilities [OtherCapability 1, QResync]) QResync"
    by (simp add: clientSupports_def setClientSupports_def initialCapabilities_def)
  show ?thesis
    using q capabilities_monotone [of "[OtherCapability 1]" QResync "[OtherCapability 2]"
        "[OtherCapability 1, QResync]"]
    by simp
qed

subsection \<open>Dot-stuffing\<close>

lemma stuff_Nil: "stuff [] = []"
  by (simp add: stuff_def)

lemma stuff_single: "stuff [c] = (if c = CHR ''.'' then [CHR ''.'', c] else [c])"
  by (simp add: stuff_def)

lemma stuff_snoc: "cur \<noteq> [] \<Longrightarrow> stuff (cur @ [c]) = stuff cur @ [c]"
  by (cases cur) (simp_all add: stuff_def)

lemma stuff_not_dot: "stuff cur \<noteq> ''.''"
  by (cases cur) (auto simp: stuff_def)

lemma unstuff_stuff: "unstuff (stuff cur) = cur"
  by (cases cur) (auto simp: stuff_def unstuff_def)

lemma dotted_from_step:
  "stuff cur @ dotted_from (cur = []) s =
   concat (map (\<lambda>l. stuff l @ CRLF) (split_lines cur s)) @ ''.'' @ CRLF"
proof (induction cur s rule: split_lines.induct)
  case (1 cur)
  then show ?case by (simp add: stuff_Nil)
next
  case (2 cur c cs)
  show ?case
  proof (cases "c = CR")
    case True
    then show ?thesis
      using "2.IH"(1,2,3) by (cases cs) (simp_all add: stuff_Nil)
  next
    case notCR: False
    show ?thesis
    proof (cases "c = LF")
      case True
      then show ?thesis using notCR "2.IH"(4) by (simp add: stuff_Nil)
    next
      case False
      have "stuff (cur @ [c]) = stuff cur @ (if cur = [] \<and> c = CHR ''.'' then ''.'' else []) @ [c]"
        by (cases "cur = []") (simp_all add: stuff_snoc stuff_single stuff_Nil)
      then show ?thesis using notCR False "2.IH"(5) by simp
    qed
  qed
qed

lemma dotted_refines: "dotted s = dotted_spec s"
  using dotted_from_step [of "[]" s] by (simp add: dotted_def dotted_spec_def stuff_Nil)

lemma undot_CRLF:
  "undot cur (CR # LF # rest) =
     (if cur = ''.'' then Some []
      else map_option (\<lambda>b. unstuff cur @ CRLF @ b) (undot [] rest))"
  by simp

lemma undot_char: "c \<noteq> CR \<Longrightarrow> rest \<noteq> [] \<Longrightarrow> undot cur (c # rest) = undot (cur @ [c]) rest"
  by (cases rest) simp_all

lemma dotted_from_ne: "dotted_from sol s \<noteq> []"
  by (cases s) (auto simp: CRLF_def)

lemma undot_end: "undot [] (dotted_from True []) = Some []"
  by (simp add: CRLF_def)

lemma undot_line_end:
  "undot (stuff cur) (CRLF @ rest) = map_option (\<lambda>b. cur @ CRLF @ b) (undot [] rest)"
  by (simp add: CRLF_def stuff_not_dot unstuff_stuff)

lemma undot_normal:
  assumes "c \<noteq> CR"
  shows "undot (stuff cur) ((if cur = [] \<and> c = CHR ''.'' then ''.'' else []) @ c # dotted_from False cs)
         = undot (stuff (cur @ [c])) (dotted_from False cs)"
proof (cases "cur = []")
  case True
  show ?thesis
  proof (cases "c = CHR ''.''")
    case True
    with \<open>cur = []\<close> show ?thesis
      by (simp add: stuff_Nil stuff_single undot_char dotted_from_ne)
  next
    case False
    with \<open>cur = []\<close> assms show ?thesis
      by (simp add: stuff_Nil stuff_single undot_char dotted_from_ne)
  qed
next
  case False
  with assms show ?thesis
    by (simp add: stuff_snoc undot_char dotted_from_ne)
qed

lemma roundtrip_gen:
  "no_bare s \<Longrightarrow>
   undot (stuff cur) (dotted_from (cur = []) s) =
   Some (cur @ s @ (if (if s = [] then cur = [] else last s = LF) then [] else CRLF))"
proof (induction s arbitrary: cur rule: no_bare.induct)
  case 1
  show ?case
  proof (cases "cur = []")
    case True then show ?thesis by (simp add: stuff_Nil CRLF_def)
  next
    case False
    have "undot (stuff cur) (CRLF @ dotted_from True []) = Some (cur @ CRLF)"
      unfolding undot_line_end undot_end by simp
    with False show ?thesis by simp
  qed
next
  case (2 c)
  then have c: "c \<noteq> CR" "c \<noteq> LF" by simp_all
  have "undot (stuff cur) (dotted_from (cur = []) [c]) = undot (stuff (cur @ [c])) (dotted_from False [])"
    using undot_normal [OF c(1), of cur "[]"] c by simp
  also have "\<dots> = undot (stuff (cur @ [c])) (CRLF @ dotted_from True [])" by simp
  also have "\<dots> = Some (cur @ [c] @ CRLF)"
    unfolding undot_line_end undot_end by simp
  finally show ?case using c by simp
next
  case (3 c d ds)
  show ?case
  proof (cases "c = CR")
    case True
    with "3.prems" have d: "d = LF" and nb: "no_bare ds" by simp_all
    have ih: "undot [] (dotted_from True ds) =
        Some (ds @ (if (if ds = [] then True else last ds = LF) then [] else CRLF))"
      using "3.IH"(1) [OF True nb, of "[]"] by (simp add: stuff_Nil)
    have "undot (stuff cur) (dotted_from (cur = []) (c # d # ds))
        = undot (stuff cur) (CRLF @ dotted_from True ds)"
      using True d by simp
    also have "\<dots> = map_option (\<lambda>b. cur @ CRLF @ b) (undot [] (dotted_from True ds))"
      by (rule undot_line_end)
    also have "\<dots> = Some (cur @ CRLF @ ds @ (if (if ds = [] then True else last ds = LF) then [] else CRLF))"
      unfolding ih by simp
    finally show ?thesis using True d by (simp add: CRLF_def)
  next
    case False
    with "3.prems" have c: "c \<noteq> LF" and nb: "no_bare (d # ds)" by simp_all
    have ih: "undot (stuff (cur @ [c])) (dotted_from (cur @ [c] = []) (d # ds)) =
        Some ((cur @ [c]) @ (d # ds) @ (if last (d # ds) = LF then [] else CRLF))"
      using "3.IH"(2) [OF False nb, of "cur @ [c]"] by simp
    have "undot (stuff cur) (dotted_from (cur = []) (c # d # ds))
        = undot (stuff cur) ((if cur = [] \<and> c = CHR ''.'' then ''.'' else []) @ c # dotted_from False (d # ds))"
      using False c by simp
    also have "\<dots> = undot (stuff (cur @ [c])) (dotted_from False (d # ds))"
      using False by (rule undot_normal)
    also have "\<dots> = Some ((cur @ [c]) @ (d # ds) @ (if last (d # ds) = LF then [] else CRLF))"
      using ih by simp
    finally show ?thesis by simp
  qed
qed

lemma no_bare_ends_line: "no_bare s \<Longrightarrow> ends_line s \<longleftrightarrow> (s = [] \<or> last s = LF)"
proof (induction s rule: no_bare.induct)
  case 1
  then show ?case by (simp add: ends_line_def)
next
  case (2 c)
  then show ?case by (simp add: ends_line_def)
next
  case (3 c d ds)
  show ?case
  proof (cases "c = CR")
    case True
    with "3.prems" have d: "d = LF" and nb: "no_bare ds" by simp_all
    from "3.IH"(1) [OF True nb] have ih: "ends_line ds \<longleftrightarrow> ds = [] \<or> last ds = LF" .
    show ?thesis
    proof (cases ds)
      case Nil
      with True d show ?thesis by (simp add: ends_line_def CRLF_def)
    next
      case (Cons e es)
      have "ends_line (c # d # ds) = ends_line ds"
        using Cons nb
        by (cases es) (auto simp: ends_line_def CRLF_def Suc_diff_le)
      with ih Cons show ?thesis by simp
    qed
  next
    case False
    with "3.prems" have c: "c \<noteq> LF" and nb: "no_bare (d # ds)" by simp_all
    from "3.IH"(2) [OF False nb] have ih: "ends_line (d # ds) \<longleftrightarrow> last (d # ds) = LF" by simp
    have "ends_line (c # d # ds) = ends_line (d # ds)"
      using False by (cases ds) (auto simp: ends_line_def CRLF_def Suc_diff_le)
    with ih show ?thesis by simp
  qed
qed

lemma roundtrip:
  "no_bare s \<Longrightarrow> undotted (dotted s) = Some (s @ (if ends_line s then [] else CRLF))"
  using roundtrip_gen [of s "[]"] no_bare_ends_line [of s]
  by (simp add: undotted_def dotted_def stuff_Nil)

text \<open>
  Claim C6, as amended.  SmtpClient::dotted turns every CRLF pair, lone CR and lone LF
  into CRLF, doubles the dot of every line that begins with one, terminates an
  unterminated last line with CRLF and appends a dot and CRLF (it computes what
  \<open>dotted_spec\<close> describes).  For a body without bare CR or LF, dot-stuffing followed
  by dot-unstuffing gives the body back when it is empty or ends with CRLF, and the body
  followed by CRLF otherwise.
\<close>

theorem dotted_correct:
  "dotted s = dotted_spec s \<and>
   (no_bare s \<longrightarrow> undotted (dotted s) = Some (s @ (if ends_line s then [] else CRLF)))"
  using dotted_refines [of s] roundtrip [of s] by blast

theorem dotted_correct_witness:
  "no_bare (''.a'' @ CRLF @ ''..'' @ CRLF) \<and> ends_line (''.a'' @ CRLF @ ''..'' @ CRLF) \<and>
   dotted (''.a'' @ CRLF @ ''..'' @ CRLF) = dotted_spec (''.a'' @ CRLF @ ''..'' @ CRLF) \<and>
   dotted (''.a'' @ CRLF @ ''..'' @ CRLF) = ''..a'' @ CRLF @ ''...'' @ CRLF @ ''.'' @ CRLF \<and>
   undotted (dotted (''.a'' @ CRLF @ ''..'' @ CRLF)) = Some (''.a'' @ CRLF @ ''..'' @ CRLF)"
proof -
  have nb: "no_bare (''.a'' @ CRLF @ ''..'' @ CRLF)"
    by (simp add: CRLF_def)
  have el: "ends_line (''.a'' @ CRLF @ ''..'' @ CRLF)"
    by (simp add: CRLF_def ends_line_def)
  have d: "dotted (''.a'' @ CRLF @ ''..'' @ CRLF) = ''..a'' @ CRLF @ ''...'' @ CRLF @ ''.'' @ CRLF"
    by (simp add: dotted_def CRLF_def)
  note t = dotted_correct [of "''.a'' @ CRLF @ ''..'' @ CRLF"]
  have r: "dotted (''.a'' @ CRLF @ ''..'' @ CRLF) = dotted_spec (''.a'' @ CRLF @ ''..'' @ CRLF)"
    using t by blast
  have "undotted (dotted (''.a'' @ CRLF @ ''..'' @ CRLF)) =
      Some ((''.a'' @ CRLF @ ''..'' @ CRLF) @
        (if ends_line (''.a'' @ CRLF @ ''..'' @ CRLF) then [] else CRLF))"
    using t nb by blast
  then have u: "undotted (dotted (''.a'' @ CRLF @ ''..'' @ CRLF)) = Some (''.a'' @ CRLF @ ''..'' @ CRLF)"
    by (simp only: el if_True append_Nil2)
  from nb el r d u show ?thesis by blast
qed

text \<open>
  The claim as stated fails: the body \<open>abc\<close> has no bare CR or LF, but it is sent
  exactly as the body \<open>abc\<close> followed by CRLF is, so the receiver gets that one.
\<close>

theorem dotted_roundtrip_counterexample:
  "no_bare ''abc'' \<and> dotted ''abc'' = dotted (''abc'' @ CRLF) \<and>
   undotted (dotted ''abc'') = Some (''abc'' @ CRLF) \<and> ''abc'' @ CRLF \<noteq> ''abc''"
  by (simp add: dotted_def undotted_def CRLF_def unstuff_def)

subsection \<open>Enhanced status codes\<close>

lemma number_550: "number ''550'' = Some 550"
  by (simp add: number_def is_digit_def digit_val_def)

lemma enhancedStatus_table_550:
  "enhancedStatus (''550 '' @ text) False s = ''5.2.0''"
  by (simp add: enhancedStatus_def mid_def number_550 statusTable_def)

lemma handleFailure_RcptTo:
  "state d = RcptTo \<Longrightarrow> dsn d = Some rs \<Longrightarrow> rcptTo d < length rs \<Longrightarrow>
   handleFailure sendCommand d line =
     Some (sendCommand (d\<lparr>dsn := Some (rs[rcptTo d :=
        (rs ! rcptTo d)\<lparr>action := (if at line 0 = CHR ''5'' then Failed else Delayed),
           status := enhancedStatus line (enhancedstatuscodes d) RcptTo\<rparr>])\<rparr>))"
  by (simp add: handleFailure_def setAction_def Let_def)

text \<open>
  Claim C5.  In state RcptTo a 5xx reply makes the current recipient Failed and a 4xx
  reply makes it Delayed, and without ENHANCEDSTATUSCODES a 550 reply gives the status
  5.2.0 from the table.  The claim also says that with ENHANCEDSTATUSCODES the status
  is the RFC 3463 triple of the reply.  It is not: for the reply
  \<open>550 5.1.1 User unknown\<close> the space after the triple is found at position 5 of
  \<open>l.mid(4)\<close>, the test \<open>i > 5\<close> fails and the table gives 5.2.0; when the
  status is longer, the source returns its first \<open>i - 4\<close> octets only.
\<close>

theorem enhancedStatus_triple_lost:
  "enhancedStatus ''550 5.1.1 User unknown'' True RcptTo = ''5.2.0'' \<and>
   enhancedStatus ''550 5.1.10 User unknown'' True RcptTo = ''5.'' \<and>
   handleFailure id
     \<lparr>state = RcptTo,
      dsn = Some [\<lparr>finalRecipient = ''u@example.org'', action = Unknown, status = []\<rparr>],
      rcptTo = 0, enhancedstatuscodes = True\<rparr>
     ''550 5.1.1 User unknown'' =
   Some \<lparr>state = RcptTo,
      dsn = Some [\<lparr>finalRecipient = ''u@example.org'', action = Failed, status = ''5.2.0''\<rparr>],
      rcptTo = 0, enhancedstatuscodes = True\<rparr>"
proof -
  have a: "enhancedStatus ''550 5.1.1 User unknown'' True RcptTo = ''5.2.0''"
    by (simp add: enhancedStatus_def find_char_def mid_from_def mid_def number_550
        statusTable_def)
  have b: "enhancedStatus ''550 5.1.10 User unknown'' True RcptTo = ''5.''"
    by (simp add: enhancedStatus_def find_char_def mid_from_def mid_def at_def)
  have c: "handleFailure id
     \<lparr>state = RcptTo,
      dsn = Some [\<lparr>finalRecipient = ''u@example.org'', action = Unknown, status = []\<rparr>],
      rcptTo = 0, enhancedstatuscodes = True\<rparr>
     ''550 5.1.1 User unknown'' =
   Some \<lparr>state = RcptTo,
      dsn = Some [\<lparr>finalRecipient = ''u@example.org'', action = Failed, status = ''5.2.0''\<rparr>],
      rcptTo = 0, enhancedstatuscodes = True\<rparr>"
    by (simp add: handleFailure_def a setAction_def at_def)
  from a b c show ?thesis by blast
qed

subsection \<open>Queue runs of the spool manager\<close>

lemma processRows_agents:
  "fst (processRows rows ags delay) = ags @ map (\<lambda>(m, dl). \<lparr>messageId = m\<rparr>) (due rows)"
  by (induction rows ags delay rule: processRows.induct)
     (auto simp: due_def split: prod.splits)

lemma processRows_events:
  "snd (snd (processRows rows ags delay)) =
   map (\<lambda>(n, (m, dl)). AgentSpawned m (n * 5)) (enumerate (length ags) (due rows))"
  by (induction rows ags delay rule: processRows.induct)
     (auto simp: due_def split: prod.splits)

lemma processRows_delay:
  "fst (snd (processRows rows ags delay)) = fold min (later_delays rows) delay"
  by (induction rows ags delay rule: processRows.induct)
     (auto simp: later_delays_def min_def split: prod.splits)

lemma SpoolManager_execute_rows:
  assumes "sm_q d = Some (Done rows)" "rows \<noteq> []"
  shows "SpoolManager_execute working d =
    (let delay = fold min (later_delays rows) UINT_MAX;
         d1 = d\<lparr>sm_agents := sm_agents d @ map (\<lambda>(m, dl). \<lparr>messageId = m\<rparr>) (due rows),
                sm_t := (if delay < UINT_MAX then Some (nat delay) else sm_t d),
                sm_q := None\<rparr>
     in (fst (SpoolManager_reset d1),
         map (\<lambda>(n, (m, dl)). AgentSpawned m (n * 5))
             (enumerate (length (sm_agents d)) (due rows)) @
         (if delay < UINT_MAX then [TimerArmed (nat delay)] else []) @
         snd (SpoolManager_reset d1)))"
proof -
  obtain ags delay ev where p: "processRows rows (sm_agents d) UINT_MAX = (ags, delay, ev)"
    by (cases "processRows rows (sm_agents d) UINT_MAX") auto
  have a: "ags = sm_agents d @ map (\<lambda>(m, dl). \<lparr>messageId = m\<rparr>) (due rows)"
    using processRows_agents [of rows "sm_agents d" UINT_MAX] p by simp
  have e: "ev = map (\<lambda>(n, (m, dl)). AgentSpawned m (n * 5))
      (enumerate (length (sm_agents d)) (due rows))"
    using processRows_events [of rows "sm_agents d" UINT_MAX] p by simp
  have dl: "delay = fold min (later_delays rows) UINT_MAX"
    using processRows_delay [of rows "sm_agents d" UINT_MAX] p by simp
  show ?thesis
    using assms p unfolding a e dl
    by (simp add: SpoolManager_execute_def Let_def split: prod.splits)
qed


text \<open>
  After the loop over the rows, execute calls reset, which deletes the timer whatever
  it is; unless \<open>again\<close> is set, the manager has no timer when execute returns.
\<close>

lemma SpoolManager_execute_timer_deleted:
  assumes "sm_q d = Some (Done rows)" "rows \<noteq> []" "\<not> sm_again d"
  shows "sm_t (fst (SpoolManager_execute working d)) = None"
  unfolding SpoolManager_execute_rows [OF assms(1,2)] Let_def
  using assms(3) by (simp add: SpoolManager_reset_def)




subsection \<open>Shutting the spool manager down\<close>

lemma DeliveryAgent_finish_failed:
  "DeliveryAgent_finish True True p = SpoolManager_shutdown p"
  by (simp add: DeliveryAgent_finish_def)

lemma SpoolManager_shutdown_effect:
  "sm (SpoolManager_shutdown p) = None \<and> shutdown (SpoolManager_shutdown p) \<and>
   (sm p = Some i \<and> i < length (managers p) \<longrightarrow>
      sm_t (managers (SpoolManager_shutdown p) ! i) = None)"
  by (simp add: SpoolManager_shutdown_def)

text \<open>
  Claim C8.  A DeliveryAgent whose transaction is done and has failed calls
  SpoolManager::shutdown, which deletes the timer, clears the pointer \<open>sm\<close> and sets
  the flag \<open>shutdown\<close> (the two lemmas above).  The claim goes on: afterwards the
  manager is never restarted and no DeliveryAgent is created.  Nothing reads the flag,
  and the code does otherwise.  Below, the manager has started a queue run (its query
  is pending) when an agent's commit fails; the query then completes with a row that is
  due, the manager's \<open>execute()\<close> runs as the owner of the query and creates an agent.
  And SpoolManager::setup, called after the shutdown, creates a new manager.
\<close>

theorem SpoolManager_shutdown_not_final:
  "runManager (\<lambda>a. False) 0 (SpoolManager_setup \<lparr>managers = [], sm = None, shutdown = False\<rparr>)
     = (\<lparr>managers = [\<lparr>sm_q = Some Pending, sm_t = None, sm_agents = [], sm_again = False\<rparr>],
         sm = Some 0, shutdown = False\<rparr>, [QueryStarted []])
   \<and> DeliveryAgent_finish True True
       \<lparr>managers = [\<lparr>sm_q = Some Pending, sm_t = None, sm_agents = [], sm_again = False\<rparr>],
        sm = Some 0, shutdown = False\<rparr>
     = \<lparr>managers = [\<lparr>sm_q = Some Pending, sm_t = None, sm_agents = [], sm_again = False\<rparr>],
        sm = None, shutdown = True\<rparr>
   \<and> runManager (\<lambda>a. False) 0 (queryDone [(7, 0)] 0
       \<lparr>managers = [\<lparr>sm_q = Some Pending, sm_t = None, sm_agents = [], sm_again = False\<rparr>],
        sm = None, shutdown = True\<rparr>)
     = (\<lparr>managers = [\<lparr>sm_q = None, sm_t = None, sm_agents = [\<lparr>messageId = 7\<rparr>],
                       sm_again = False\<rparr>],
         sm = None, shutdown = True\<rparr>, [AgentSpawned 7 0])
   \<and> SpoolManager_setup
       \<lparr>managers = [\<lparr>sm_q = Some Pending, sm_t = None, sm_agents = [], sm_again = False\<rparr>],
        sm = None, shutdown = True\<rparr>
     = \<lparr>managers = [\<lparr>sm_q = Some Pending, sm_t = None, sm_agents = [], sm_again = False\<rparr>,
                    \<lparr>sm_q = None, sm_t = None, sm_agents = [], sm_again = False\<rparr>],
        sm = Some 1, shutdown = True\<rparr>"
proof -
  have a: "runManager (\<lambda>a. False) 0
      (SpoolManager_setup \<lparr>managers = [], sm = None, shutdown = False\<rparr>)
     = (\<lparr>managers = [\<lparr>sm_q = Some Pending, sm_t = None, sm_agents = [], sm_again = False\<rparr>],
         sm = Some 0, shutdown = False\<rparr>, [QueryStarted []])"
    by (simp add: runManager_def SpoolManager_setup_def newSpoolManager_def
        SpoolManager_execute_def SpoolManager_reset_def)
  have b: "DeliveryAgent_finish True True
       \<lparr>managers = [\<lparr>sm_q = Some Pending, sm_t = None, sm_agents = [], sm_again = False\<rparr>],
        sm = Some 0, shutdown = False\<rparr>
     = \<lparr>managers = [\<lparr>sm_q = Some Pending, sm_t = None, sm_agents = [], sm_again = False\<rparr>],
        sm = None, shutdown = True\<rparr>"
    by (simp add: DeliveryAgent_finish_def SpoolManager_shutdown_def)
  have c: "runManager (\<lambda>a. False) 0 (queryDone [(7, 0)] 0
       \<lparr>managers = [\<lparr>sm_q = Some Pending, sm_t = None, sm_agents = [], sm_again = False\<rparr>],
        sm = None, shutdown = True\<rparr>)
     = (\<lparr>managers = [\<lparr>sm_q = None, sm_t = None, sm_agents = [\<lparr>messageId = 7\<rparr>],
                       sm_again = False\<rparr>],
         sm = None, shutdown = True\<rparr>, [AgentSpawned 7 0])"
    by (simp add: runManager_def queryDone_def SpoolManager_execute_def
        SpoolManager_reset_def UINT_MAX_def)
  have d: "SpoolManager_setup
       \<lparr>managers = [\<lparr>sm_q = Some Pending, sm_t = None, sm_agents = [], sm_again = False\<rparr>],
        sm = None, shutdown = True\<rparr>
     = \<lparr>managers = [\<lparr>sm_q = Some Pending, sm_t = None, sm_agents = [], sm_again = False\<rparr>,
                    \<lparr>sm_q = None, sm_t = None, sm_agents = [], sm_again = False\<rparr>],
        sm = Some 1, shutdown = True\<rparr>"
    by (simp add: SpoolManager_setup_def newSpoolManager_def)
  from a b c d show ?thesis by blast
qed

subsection \<open>Expunges and the commands in progress\<close>


lemma expungeScan_cannot:
  "snd (expungeScan cs can) \<longleftrightarrow> (\<exists>c\<in>set cs. forbidsExpunge c)"
  by (induction cs can rule: expungeScan.induct)
     (auto simp: forbidsExpunge_def idleExecuting_def)

lemma expungeScan_can:
  "\<not> (\<exists>c\<in>set cs. forbidsExpunge c) \<Longrightarrow>
   fst (expungeScan cs can) \<longleftrightarrow> can \<or> (\<exists>c\<in>set cs. idleExecuting c \<or> finishedTagged c)"
  by (induction cs can rule: expungeScan.induct)
     (auto simp: forbidsExpunge_def idleExecuting_def finishedTagged_def)

lemma canSendExpunge_iff:
  "canSendExpunge cs \<longleftrightarrow>
   (\<exists>c\<in>set cs. idleExecuting c \<or> finishedTagged c) \<and> \<not> (\<exists>c\<in>set cs. forbidsExpunge c)"
proof (cases "\<exists>c\<in>set cs. forbidsExpunge c")
  case True
  then have "snd (expungeScan cs False)" by (simp add: expungeScan_cannot)
  then have "\<not> canSendExpunge cs"
    by (cases "expungeScan cs False") (simp add: canSendExpunge_def)
  with True show ?thesis by blast
next
  case False
  then have n: "\<not> snd (expungeScan cs False)" by (simp add: expungeScan_cannot)
  have "fst (expungeScan cs False) \<longleftrightarrow> (\<exists>c\<in>set cs. idleExecuting c \<or> finishedTagged c)"
    using expungeScan_can [OF False, of False] by simp
  with n False show ?thesis
    by (cases "expungeScan cs False") (simp add: canSendExpunge_def)
qed

lemma emitLoop_out:
  "fst (snd (emitLoop can rs)) =
   concat (map (\<lambda>r. ''* '' @ r_text r @ CRLF)
     (filter (\<lambda>r. r_meaningful r \<and> \<not> r_sent r \<and> r_text r \<noteq> [] \<and> (can \<or> \<not> r_changesMsn r)) rs))"
  by (induction rs) (auto split: prod.splits)

lemma emitResponses_writes:
  "i_writeBuffer (emitResponses check s) =
   i_writeBuffer s @ concat (map (\<lambda>r. ''* '' @ r_text r @ CRLF) (written s))"
proof -
  obtain keep out any where e:
    "emitLoop (canSendExpunge (i_commands (commands s))) (i_responses (commands s)) = (keep, out, any)"
    by (cases "emitLoop (canSendExpunge (i_commands (commands s))) (i_responses (commands s))") auto
  have o: "out = concat (map (\<lambda>r. ''* '' @ r_text r @ CRLF)
     (filter (\<lambda>r. r_meaningful r \<and> \<not> r_sent r \<and> r_text r \<noteq> [] \<and>
        (canSendExpunge (i_commands (commands s)) \<or> \<not> r_changesMsn r)) (i_responses (commands s))))"
    using emitLoop_out [of "canSendExpunge (i_commands (commands s))" "i_responses (commands s)"] e
    by simp
  have w: "i_writeBuffer (commands s) = i_writeBuffer s" by (simp add: commands_def)
  show ?thesis
    unfolding emitResponses_def written_def Let_def e o
    by (simp add: w)
qed

lemma written_changesMsn:
  "r \<in> set (written s) \<Longrightarrow> r_changesMsn r \<Longrightarrow> canSendExpunge (i_commands (commands s))"
  by (auto simp: written_def Let_def split: if_splits)


text \<open>
  Claim C1, as amended.  IMAP::emitResponses writes exactly the responses of
  \<open>written\<close>, and it writes a response that changes MSNs (EXPUNGE, VANISHED) only when
  the can-send-expunge predicate holds for the commands of the session.  The predicate
  is true if and only if some command is an executing IDLE or a finished command with a
  non-empty tag, and no command forbids expunges; a command forbids expunges when it is
  not an executing IDLE and it is executing, or has group 2 or 3, or uses MSNs and is
  not copy.  The forbidding conditions win over the permitting ones.
\<close>

theorem emitResponses_expunge_gate:
  "i_writeBuffer (emitResponses check s) =
     i_writeBuffer s @ concat (map (\<lambda>r. ''* '' @ r_text r @ CRLF) (written s))
   \<and> (\<forall>r\<in>set (written s). r_changesMsn r \<longrightarrow> canSendExpunge (i_commands (commands s)))
   \<and> (canSendExpunge cs \<longleftrightarrow>
        (\<exists>c\<in>set cs. idleExecuting c \<or> finishedTagged c) \<and> \<not> (\<exists>c\<in>set cs. forbidsExpunge c))"
  using emitResponses_writes [of check s] written_changesMsn [of _ s] canSendExpunge_iff [of cs]
  by blast

theorem emitResponses_expunge_gate_witness:
  "written \<lparr>i_commands =
        [\<lparr>c_tag = ''a'', c_name = ''idle'', c_group = 0, c_state = Executing,
          c_usesMsn = False, c_ok = True\<rparr>],
      i_responses =
        [\<lparr>r_text = ''5 EXPUNGE'', r_meaningful = True, r_changesMsn = True, r_sent = False\<rparr>],
      i_noUnsolicitedResponses = False, i_writeBuffer = [], i_readBuffer = [], i_str = [],
      i_readingLiteral = False, i_literalSize = 0, i_reader = False, i_maybeProxy = False,
      i_added = [], i_syntaxErrors = 0, i_lastBadTime = 0, i_user = None,
      i_runningCommands = False, i_timers = [],
      i_connection = Connection_Connected, i_state = Selected,
      i_bytesArrived = 0\<rparr>
     = [\<lparr>r_text = ''5 EXPUNGE'', r_meaningful = True, r_changesMsn = True, r_sent = False\<rparr>]
   \<and> i_writeBuffer (emitResponses id \<lparr>i_commands =
        [\<lparr>c_tag = ''a'', c_name = ''idle'', c_group = 0, c_state = Executing,
          c_usesMsn = False, c_ok = True\<rparr>],
      i_responses =
        [\<lparr>r_text = ''5 EXPUNGE'', r_meaningful = True, r_changesMsn = True, r_sent = False\<rparr>],
      i_noUnsolicitedResponses = False, i_writeBuffer = [], i_readBuffer = [], i_str = [],
      i_readingLiteral = False, i_literalSize = 0, i_reader = False, i_maybeProxy = False,
      i_added = [], i_syntaxErrors = 0, i_lastBadTime = 0, i_user = None,
      i_runningCommands = False, i_timers = [],
      i_connection = Connection_Connected, i_state = Selected,
      i_bytesArrived = 0\<rparr>) = ''* 5 EXPUNGE'' @ CRLF
   \<and> canSendExpunge
        [\<lparr>c_tag = ''a'', c_name = ''idle'', c_group = 0, c_state = Executing,
          c_usesMsn = False, c_ok = True\<rparr>]"
proof -
  let ?c = "\<lparr>c_tag = ''a'', c_name = ''idle'', c_group = 0, c_state = Executing,
          c_usesMsn = False, c_ok = True\<rparr>"
  let ?r = "\<lparr>r_text = ''5 EXPUNGE'', r_meaningful = True, r_changesMsn = True, r_sent = False\<rparr>"
  let ?s = "\<lparr>i_commands = [?c], i_responses = [?r],
      i_noUnsolicitedResponses = False, i_writeBuffer = [], i_readBuffer = [], i_str = [],
      i_readingLiteral = False, i_literalSize = 0, i_reader = False, i_maybeProxy = False,
      i_added = [], i_syntaxErrors = 0, i_lastBadTime = 0, i_user = None,
      i_runningCommands = False, i_timers = [],
      i_connection = Connection_Connected, i_state = Selected,
      i_bytesArrived = 0\<rparr>"
  note t = emitResponses_expunge_gate [of id ?s "[?c]"]
  have i: "idleExecuting ?c" by (simp add: idleExecuting_def)
  have f: "\<not> forbidsExpunge ?c" by (simp add: forbidsExpunge_def idleExecuting_def)
  have can: "canSendExpunge [?c]" using t i f by simp
  have w: "written ?s = [?r]"
    using can by (simp add: written_def commands_def)
  have o: "i_writeBuffer (emitResponses id ?s) = ''* 5 EXPUNGE'' @ CRLF"
    using t w by simp
  from w o can show ?thesis by blast
qed

text \<open>
  The claim as stated fails: an IDLE is executing, but an MSN FETCH (group 2) is queued
  behind it, and the predicate is false.
\<close>

theorem canSendExpunge_counterexample:
  "idleExecuting \<lparr>c_tag = ''a'', c_name = ''idle'', c_group = 0, c_state = Executing,
       c_usesMsn = False, c_ok = True\<rparr>
   \<and> \<not> canSendExpunge
     [\<lparr>c_tag = ''a'', c_name = ''idle'', c_group = 0, c_state = Executing,
       c_usesMsn = False, c_ok = True\<rparr>,
      \<lparr>c_tag = ''b'', c_name = ''fetch'', c_group = 2, c_state = Unparsed,
       c_usesMsn = False, c_ok = True\<rparr>]"
  by (simp add: canSendExpunge_def idleExecuting_def)

subsection \<open>The rate limit\<close>


lemma int32_id: "- (2 ^ 31) \<le> x \<Longrightarrow> x < 2 ^ 31 \<Longrightarrow> int32 x = x"
  by (simp add: int32_def)

lemma int32_add_left: "int32 (int32 a + b) = int32 (a + b)"
proof -
  have "(int32 a + b + 2 ^ 31) mod 2 ^ 32 = ((a + 2 ^ 31) mod 2 ^ 32 + b) mod 2 ^ 32"
    by (simp add: int32_def algebra_simps)
  also have "\<dots> = (a + 2 ^ 31 + b) mod 2 ^ 32"
    by (rule mod_add_left_eq)
  finally show ?thesis by (simp add: int32_def algebra_simps)
qed

lemma int32_diff_right: "int32 (a - int32 b) = int32 (a - b)"
proof -
  have "(a - int32 b + 2 ^ 31) mod 2 ^ 32 = (a + 2 ^ 32 - (b + 2 ^ 31) mod 2 ^ 32) mod 2 ^ 32"
    by (simp add: int32_def algebra_simps)
  also have "\<dots> = (a + 2 ^ 32 - (b + 2 ^ 31)) mod 2 ^ 32"
    by (rule mod_diff_right_eq)
  also have "\<dots> = (a - b + 2 ^ 31) mod 2 ^ 32"
    by (simp add: algebra_simps)
  finally show ?thesis by (simp add: int32_def)
qed

lemma delayNeeded_eq:
  assumes "int se < 2 ^ 31"
    and "- (2 ^ 31) \<le> int lbt + min 16 (int se) - now"
    and "int lbt + min 16 (int se) - now < 2 ^ 31"
  shows "delayNeeded se lbt now u =
     max (if u = Some False then 4 else 0) (min 16 (int se) - (now - int lbt))"
proof -
  have d0: "int32 (int se) = int se"
    using assms(1) by (intro int32_id) simp_all
  have "int32 (int32 (int32 (int lbt) + min 16 (int se)) - int32 now)
      = int32 (int32 (int32 (int lbt) + min 16 (int se)) - now)"
    by (rule int32_diff_right)
  also have "\<dots> = int32 (int32 (int32 (int lbt) + min 16 (int se)) + (- now))" by simp
  also have "\<dots> = int32 (int32 (int lbt) + min 16 (int se) + (- now))"
    by (rule int32_add_left)
  also have "\<dots> = int32 (int32 (int lbt) + (min 16 (int se) - now))"
    by (simp add: algebra_simps)
  also have "\<dots> = int32 (int lbt + (min 16 (int se) - now))"
    by (rule int32_add_left)
  also have "\<dots> = int lbt + (min 16 (int se) - now)"
    using assms(2,3) by (intro int32_id) simp_all
  also have "\<dots> = int lbt + min 16 (int se) - now" by simp
  finally have d2: "int32 (int32 (int32 (int lbt) + min 16 (int se)) - int32 now)
      = int lbt + min 16 (int se) - now" .
  have m: "(if int se > 16 then 16 else int se) = min 16 (int se)" by (simp add: min_def)
  show ?thesis
    unfolding delayNeeded_def Let_def d0 m d2
    by (simp add: max_def min_def)
qed


lemma rateLimitedStart_holds:
  "0 < delayNeeded (i_syntaxErrors s) (i_lastBadTime s) now (i_user s) \<Longrightarrow>
   i_commands s \<noteq> [] \<Longrightarrow>
   rateLimitedStart cparse now s =
     (s\<lparr>i_timers := i_timers s @
           [nat (delayNeeded (i_syntaxErrors s) (i_lastBadTime s) now (i_user s))],
        i_runningCommands := False\<rparr>, True)"
  by (simp add: rateLimitedStart_def Let_def)

lemma delayNeeded_three_errors: "delayNeeded 3 1000 1000 (Some True) = 3"
  using delayNeeded_eq [of 3 1000 1000 "Some True"] by simp

text \<open>
  Claim C2.  The claim gives the delay as min(16, syntaxErrors) - (now - lastBadTime),
  at least 0 and at least 4 for a user without an inbox, and says that a positive delay
  with a non-empty queue arms a timer for that many seconds and starts no command.  The
  hold is as claimed (\<open>rateLimitedStart_holds\<close>), and so is the delay while the
  32-bit integers of the computation do not wrap (\<open>delayNeeded_eq\<close>,
  \<open>delayNeeded_three_errors\<close>).  But the code converts \<open>time(0)\<close> to \<open>int\<close>,
  and \<open>lastBadTime\<close> is 0 until the first syntax error.  On a new connection, without
  any syntax error, at a time of 2147483748 seconds (in the year 2038), the claimed delay
  is 0; the code computes 2147483548, creates a timer for that many seconds and leaves
  the queued command unparsed.  The comment in the code says that the delay is bounded
  at 16.
\<close>

theorem rateLimit_wraps:
  "max 0 (min 16 (int 0) - (2147483748 - int 0)) = (0::int)
   \<and> delayNeeded 0 0 2147483748 None = 2147483548
   \<and> rateLimitedStart (\<lambda>c. c) 2147483748
       (newIMAPData\<lparr>i_commands := [\<lparr>c_tag = ''a1'', c_name = ''login'', c_group = 0,
                           c_state = Unparsed, c_usesMsn = False, c_ok = True\<rparr>]\<rparr>)
     = (newIMAPData\<lparr>i_commands := [\<lparr>c_tag = ''a1'', c_name = ''login'', c_group = 0,
                           c_state = Unparsed, c_usesMsn = False, c_ok = True\<rparr>],
          i_timers := [2147483548]\<rparr>, True)"
proof -
  have a: "max 0 (min 16 (int 0) - (2147483748 - int 0)) = (0::int)" by simp
  have b: "delayNeeded 0 0 2147483748 None = 2147483548"
    by (simp add: delayNeeded_def int32_def)
  have c: "rateLimitedStart (\<lambda>c. c) 2147483748
       (newIMAPData\<lparr>i_commands := [\<lparr>c_tag = ''a1'', c_name = ''login'', c_group = 0,
                           c_state = Unparsed, c_usesMsn = False, c_ok = True\<rparr>]\<rparr>)
     = (newIMAPData\<lparr>i_commands := [\<lparr>c_tag = ''a1'', c_name = ''login'', c_group = 0,
                           c_state = Unparsed, c_usesMsn = False, c_ok = True\<rparr>],
          i_timers := [2147483548]\<rparr>, True)"
    by (simp add: rateLimitedStart_def newIMAPData_def b)
  from a b c show ?thesis by blast
qed

subsection \<open>Literals in command lines\<close>


lemma find_crlf_append:
  "find_crlf line = None \<Longrightarrow> find_crlf (line @ CR # LF # rest) = Some (length line)"
  by (induction line rule: find_crlf.induct) (auto split: if_splits)

lemma removeLine_line:
  "find_crlf line = None \<Longrightarrow> removeLine 0 (line @ CRLF @ rest) = Some (line, rest)"
  by (simp add: removeLine_def CRLF_def find_crlf_append)

lemma removeLine_none:
  "find_crlf b = None \<Longrightarrow> removeLine 0 b = None"
  by (simp add: removeLine_def)

lemma readLine_literal:
  assumes "endsWithLiteral line = Some (n, p)" "n \<le> limit" "\<not> i_readingLiteral s"
  shows "readLine limit line rest s =
     s\<lparr>i_readBuffer := rest, i_str := i_str s @ line @ CRLF,
       i_readingLiteral := True, i_literalSize := n,
       i_writeBuffer := i_writeBuffer s @ (if p then [] else ''+ reading literal'' @ CRLF)\<rparr>"
  using assms by (simp add: readLine_def Let_def)

lemma parseLoop_literal_waiting:
  assumes "\<not> i_readingLiteral s" "\<not> i_reader s"
    and "i_readBuffer s = line @ CRLF @ pending" "find_crlf line = None"
    and "endsWithLiteral line = Some (n, p)" "n \<le> limit"
    and "length pending < n"
  shows "parseLoop limit rd s =
     s\<lparr>i_readBuffer := pending, i_str := i_str s @ line @ CRLF,
       i_readingLiteral := True, i_literalSize := n,
       i_writeBuffer := i_writeBuffer s @ (if p then [] else ''+ reading literal'' @ CRLF)\<rparr>"
proof -
  let ?s1 = "s\<lparr>i_readBuffer := pending, i_str := i_str s @ line @ CRLF,
       i_readingLiteral := True, i_literalSize := n,
       i_writeBuffer := i_writeBuffer s @ (if p then [] else ''+ reading literal'' @ CRLF)\<rparr>"
  have r: "removeLine 0 (i_readBuffer s) = Some (line, pending)"
    unfolding assms(3) using assms(4) by (rule removeLine_line)
  have "parseLoop limit rd s = parseLoop limit rd (readLine limit line pending s)"
    by (subst parseLoop.simps) (simp add: assms(1,2) r)
  also have "readLine limit line pending s = ?s1"
    using assms(5,6,1) by (rule readLine_literal)
  also have "parseLoop limit rd ?s1 = ?s1"
    by (subst parseLoop.simps) (simp add: assms(7))
  finally show ?thesis .
qed

lemma parseLoop_literal_read:
  assumes "\<not> i_readingLiteral s" "\<not> i_reader s"
    and "i_readBuffer s = line @ CRLF @ lit @ rest" "find_crlf line = None"
    and "endsWithLiteral line = Some (n, p)" "n \<le> limit"
    and "length lit = n"
  shows "parseLoop limit rd s =
     parseLoop limit rd
       (s\<lparr>i_readBuffer := rest, i_str := i_str s @ line @ CRLF @ lit,
          i_readingLiteral := False, i_literalSize := n,
          i_writeBuffer := i_writeBuffer s @ (if p then [] else ''+ reading literal'' @ CRLF)\<rparr>)"
proof -
  let ?s1 = "s\<lparr>i_readBuffer := lit @ rest, i_str := i_str s @ line @ CRLF,
       i_readingLiteral := True, i_literalSize := n,
       i_writeBuffer := i_writeBuffer s @ (if p then [] else ''+ reading literal'' @ CRLF)\<rparr>"
  have r: "removeLine 0 (i_readBuffer s) = Some (line, lit @ rest)"
    unfolding assms(3) using assms(4) by (rule removeLine_line)
  have "parseLoop limit rd s = parseLoop limit rd (readLine limit line (lit @ rest) s)"
    by (subst parseLoop.simps) (simp add: assms(1,2) r)
  also have "readLine limit line (lit @ rest) s = ?s1"
    using assms(5,6,1) by (rule readLine_literal)
  also have "parseLoop limit rd ?s1 = parseLoop limit rd
       (s\<lparr>i_readBuffer := rest, i_str := i_str s @ line @ CRLF @ lit,
          i_readingLiteral := False, i_literalSize := n,
          i_writeBuffer := i_writeBuffer s @ (if p then [] else ''+ reading literal'' @ CRLF)\<rparr>)"
    by (subst parseLoop.simps)
       (auto simp: assms(7) intro!: arg_cong [where f = "parseLoop limit rd"])
  finally show ?thesis .
qed



lemma endsWithLiteral_Nil: "endsWithLiteral [] = None"
  by (simp add: endsWithLiteral_def)

lemma find_crlf_no_CR: "CR \<notin> set b \<Longrightarrow> find_crlf b = None"
  by (induction b rule: find_crlf.induct) auto

lemma parseLoop_no_line:
  "\<not> i_readingLiteral s \<Longrightarrow> \<not> i_reader s \<Longrightarrow> find_crlf (i_readBuffer s) = None \<Longrightarrow>
   parseLoop limit rd s = s"
  by (subst parseLoop.simps) (simp add: removeLine_none)

lemma parseLoop_last_line:
  assumes "\<not> i_readingLiteral s" "\<not> i_reader s" "i_readBuffer s = CRLF"
  shows "parseLoop limit rd s = s\<lparr>i_readBuffer := [], i_added := i_added s @ [i_str s], i_str := []\<rparr>"
proof -
  have r: "removeLine 0 (i_readBuffer s) = Some ([], [])"
    unfolding assms(3) using removeLine_line [of "[]" "[]"] by simp
  have "parseLoop limit rd s = parseLoop limit rd (readLine limit [] [] s)"
    by (subst parseLoop.simps) (simp add: assms(1,2) r)
  also have "readLine limit [] [] s =
      s\<lparr>i_readBuffer := [], i_added := i_added s @ [i_str s], i_str := []\<rparr>"
    using assms(1) by (simp add: readLine_def endsWithLiteral_Nil)
  also have "parseLoop limit rd \<dots> = s\<lparr>i_readBuffer := [], i_added := i_added s @ [i_str s], i_str := []\<rparr>"
    using assms(1,2) by (intro parseLoop_no_line) simp_all
  finally show ?thesis .
qed



lemma not_digit_brace: "\<not> is_digit (CHR ''{'')" "\<not> is_digit (CHR ''+'')"
  by (simp_all add: is_digit_def)

lemma skip_digits_run:
  "list_all is_digit ds \<Longrightarrow> k \<le> length ds \<Longrightarrow>
   skip_digits (pre @ CHR ''{'' # ds @ post) (length pre + k) = length pre"
proof (induction k)
  case 0
  show ?case
    by (cases "length pre") (simp_all add: at_def nth_append not_digit_brace)
next
  case (Suc k)
  then have k: "k < length ds" by simp
  with Suc.prems(1) have d: "is_digit (ds ! k)" by (simp add: list_all_length)
  have "at (pre @ CHR ''{'' # ds @ post) (Suc (length pre + k)) = ds ! k"
    using k by (simp add: at_def nth_append)
  with d Suc show ?case by simp
qed

lemma number_digits:
  "ds \<noteq> [] \<Longrightarrow> list_all is_digit ds \<Longrightarrow> decimal 0 ds < 2 ^ 32 \<Longrightarrow>
   number ds = Some (decimal 0 ds)"
  by (simp add: number_def)

lemma endsWithLiteral_braces:
  assumes "ds \<noteq> []" "list_all is_digit ds" "decimal 0 ds < 2 ^ 32"
    and "length pre + length ds + 3 < 2 ^ 32"
  shows "endsWithLiteral (pre @ CHR ''{'' # ds @ (if p then ''+'' else []) @ ''}'') =
         Some (decimal 0 ds, p)"
proof -
  let ?s = "pre @ CHR ''{'' # ds @ (if p then ''+'' else []) @ ''}''"
  have len: "length ?s = length pre + length ds + (if p then 3 else 2)" by simp
  have i0: "(length ?s + 2 ^ 32 - 2) mod 2 ^ 32 = length pre + length ds + (if p then 1 else 0)"
  proof -
    have "length ?s + 2 ^ 32 - 2 = (length pre + length ds + (if p then 1 else 0)) + 2 ^ 32"
      unfolding len by simp
    moreover have "length pre + length ds + (if p then 1 else 0) < (2::nat) ^ 32"
      using assms(4) by simp
    ultimately show ?thesis by simp
  qed
  have lastd: "is_digit (last ds)"
    using assms(1,2) by (simp add: list_all_iff)
  have at0: "at ?s (length pre + length ds + (if p then 1 else 0)) =
      (if p then CHR ''+'' else last ds)"
    using assms(1) by (auto simp: at_def nth_append last_conv_nth)
  have plus: "(at ?s (length pre + length ds + (if p then 1 else 0)) = CHR ''+'') = p"
    using at0 lastd not_digit_brace(2) by auto
  have j: "(if p then (length pre + length ds + (if p then 1 else 0) + 2 ^ 32 - 1) mod 2 ^ 32
           else length pre + length ds + (if p then 1 else 0)) = length pre + length ds"
  proof (cases p)
    case True
    have "length pre + length ds + 1 + 2 ^ 32 - 1 = (length pre + length ds) + 2 ^ 32" by simp
    moreover have "length pre + length ds < (2::nat) ^ 32" using assms(4) by simp
    ultimately show ?thesis using True by simp
  next
    case False
    then show ?thesis by simp
  qed
  have i: "skip_digits ?s (length pre + length ds) = length pre"
    using assms(2) by (intro skip_digits_run) simp_all
  have brace: "at ?s (length pre) = CHR ''{''"
    by (simp add: at_def nth_append)
  have m: "mid ?s (length pre + 1) (length pre + length ds - length pre) = ds"
    by (simp add: mid_def)
  have ne: "?s \<noteq> []" "last ?s = CHR ''}''" by simp_all
  show ?thesis
    unfolding endsWithLiteral_def Let_def i0 plus j i
    using ne brace m number_digits [OF assms(1,2,3)]
    by simp
qed


lemma parse_noproxy: "\<not> i_maybeProxy s \<Longrightarrow> parse limit rd s = parseLoop limit rd s"
  by (simp add: parse_def maybeParseProxyLeader_def)

lemma parse_waits_for_leader:
  "i_maybeProxy s \<Longrightarrow> length (i_readBuffer s) < 16 \<Longrightarrow> parse limit rd s = s"
  by (simp add: parse_def maybeParseProxyLeader_def)

lemma leader_settled: "maybeParseProxyLeader s0 = (True, s) \<Longrightarrow> \<not> i_maybeProxy s"
  by (auto simp: maybeParseProxyLeader_def Let_def split: if_splits)

lemma leader_waiting: "maybeParseProxyLeader s0 = (False, s) \<Longrightarrow> s = s0"
  by (auto simp: maybeParseProxyLeader_def Let_def split: if_splits)

lemma parse_after_leader:
  "maybeParseProxyLeader s0 = (True, s) \<Longrightarrow> parse limit rd s0 = parseLoop limit rd s"
  by (simp add: parse_def)

text \<open>
  Claim C3, as amended.  IMAP::parse first handles the PROXY leader.  While the leader
  is undecided (maybeParseProxyLeader returns false: a new connection that has received
  fewer than 16 octets, or an incomplete PROXY header), parse reads no line and writes
  nothing, whatever the buffer holds.  Once maybeParseProxyLeader returns true (an
  earlier call has settled the leader, or this call finds that the first 16 octets are
  no PROXY header, or it removes a complete header), the claim holds for the buffer it
  leaves: with the server reading lines (no literal is being read, no command has
  reserved the input) and that buffer starting with a line that ends with a literal
  specification (an opening brace, a decimal number N not above the literal size limit,
  optionally a plus sign, and a closing brace; the limit and the length of the line
  fit in 32 bits): while fewer than N octets have arrived after the line, parse stops
  with the literal pending and those octets unread, having written the continuation
  request if and only if the specification has no plus sign; once the N octets are
  there, parse takes them into the command text, writes nothing more, and goes on
  reading lines in the rest of the buffer, with the text collected so far, where the
  next line may again end with a literal.
\<close>

theorem parse_literal:
  assumes "maybeParseProxyLeader s0 = (True, s)"
    and "\<not> i_readingLiteral s" "\<not> i_reader s"
    and "line = pre @ CHR ''{'' # ds @ (if p then ''+'' else []) @ ''}''"
    and "ds \<noteq> []" "list_all is_digit ds" "decimal 0 ds \<le> limit" "limit < 2 ^ 32"
    and "length pre + length ds + 3 < 2 ^ 32"
    and "find_crlf line = None"
    and "i_readBuffer s = line @ CRLF @ input"
  shows "(length input < decimal 0 ds \<longrightarrow>
           parse limit rd s0 =
             s\<lparr>i_readBuffer := input, i_str := i_str s @ line @ CRLF,
               i_readingLiteral := True, i_literalSize := decimal 0 ds,
               i_writeBuffer := i_writeBuffer s @
                 (if p then [] else ''+ reading literal'' @ CRLF)\<rparr>)
     \<and> (\<forall>lit rest. input = lit @ rest \<and> length lit = decimal 0 ds \<longrightarrow>
           parse limit rd s0 =
             parse limit rd
               (s\<lparr>i_readBuffer := rest, i_str := i_str s @ line @ CRLF @ lit,
                  i_readingLiteral := False, i_literalSize := decimal 0 ds,
                  i_writeBuffer := i_writeBuffer s @
                    (if p then [] else ''+ reading literal'' @ CRLF)\<rparr>))
     \<and> (\<forall>t t'. maybeParseProxyLeader t = (False, t') \<longrightarrow> parse limit rd t = t)"
proof -
  have d: "decimal 0 ds < 2 ^ 32" using assms(7,8) by simp
  have e: "endsWithLiteral line = Some (decimal 0 ds, p)"
    unfolding assms(4) using assms(5,6) d assms(9) by (rule endsWithLiteral_braces)
  have p0: "parse limit rd s0 = parseLoop limit rd s"
    using assms(1) by (rule parse_after_leader)
  have np0: "\<not> i_maybeProxy s" using assms(1) by (rule leader_settled)
  have a: "length input < decimal 0 ds \<longrightarrow>
           parse limit rd s0 =
             s\<lparr>i_readBuffer := input, i_str := i_str s @ line @ CRLF,
               i_readingLiteral := True, i_literalSize := decimal 0 ds,
               i_writeBuffer := i_writeBuffer s @
                 (if p then [] else ''+ reading literal'' @ CRLF)\<rparr>"
  proof
    assume l: "length input < decimal 0 ds"
    show "parse limit rd s0 =
             s\<lparr>i_readBuffer := input, i_str := i_str s @ line @ CRLF,
               i_readingLiteral := True, i_literalSize := decimal 0 ds,
               i_writeBuffer := i_writeBuffer s @
                 (if p then [] else ''+ reading literal'' @ CRLF)\<rparr>"
      unfolding p0 using assms(2,3,11,10) e assms(7) l by (rule parseLoop_literal_waiting)
  qed
  have b: "\<And>lit rest. input = lit @ rest \<and> length lit = decimal 0 ds \<Longrightarrow>
           parse limit rd s0 =
             parse limit rd
               (s\<lparr>i_readBuffer := rest, i_str := i_str s @ line @ CRLF @ lit,
                  i_readingLiteral := False, i_literalSize := decimal 0 ds,
                  i_writeBuffer := i_writeBuffer s @
                    (if p then [] else ''+ reading literal'' @ CRLF)\<rparr>)"
  proof -
    fix lit rest
    assume h: "input = lit @ rest \<and> length lit = decimal 0 ds"
    then have rb2: "i_readBuffer s = line @ CRLF @ lit @ rest" using assms(11) by simp
    from h have ll: "length lit = decimal 0 ds" by simp
    let ?s2 = "s\<lparr>i_readBuffer := rest, i_str := i_str s @ line @ CRLF @ lit,
                  i_readingLiteral := False, i_literalSize := decimal 0 ds,
                  i_writeBuffer := i_writeBuffer s @
                    (if p then [] else ''+ reading literal'' @ CRLF)\<rparr>"
    have np: "\<not> i_maybeProxy ?s2" using np0 by simp
    have "parseLoop limit rd s = parseLoop limit rd ?s2"
      using assms(2,3) rb2 assms(10) e assms(7) ll by (rule parseLoop_literal_read)
    then show "parse limit rd s0 = parse limit rd ?s2"
      unfolding p0 parse_noproxy [OF np] .
  qed
  have c: "\<forall>t t'. maybeParseProxyLeader t = (False, t') \<longrightarrow> parse limit rd t = t"
  proof (intro allI impI)
    fix t t'
    assume m: "maybeParseProxyLeader t = (False, t')"
    then have "t' = t" by (rule leader_waiting)
    with m show "parse limit rd t = t" by (simp add: parse_def)
  qed
  from a b c show ?thesis by blast
qed

theorem parse_literal_witness:
  "parse 1000 (\<lambda>b. (0, True))
     (newIMAPData\<lparr>i_readBuffer := ''a LOGIN u {4}'' @ CRLF @ ''se''\<rparr>)
   = newIMAPData\<lparr>i_maybeProxy := False, i_readBuffer := ''se'',
        i_str := ''a LOGIN u {4}'' @ CRLF, i_readingLiteral := True, i_literalSize := 4,
        i_writeBuffer := ''+ reading literal'' @ CRLF\<rparr>
   \<and> parse 1000 (\<lambda>b. (0, True))
     (newIMAPData\<lparr>i_readBuffer :=
        v2sig @ [CHR 0x20, CHR 0x00, CHR 0x00, CHR 0x00] @ ''a LOGIN u {4}'' @ CRLF @ ''se''\<rparr>)
   = newIMAPData\<lparr>i_maybeProxy := False, i_readBuffer := ''se'',
        i_str := ''a LOGIN u {4}'' @ CRLF, i_readingLiteral := True, i_literalSize := 4,
        i_writeBuffer := ''+ reading literal'' @ CRLF\<rparr>
   \<and> parse 1000 (\<lambda>b. (0, True))
     (newIMAPData\<lparr>i_maybeProxy := False,
        i_readBuffer := ''a LOGIN u {4+}'' @ CRLF @ ''secr'' @ CRLF\<rparr>)
   = newIMAPData\<lparr>i_maybeProxy := False, i_literalSize := 4,
        i_added := [''a LOGIN u {4+}'' @ CRLF @ ''secr'']\<rparr>
   \<and> parse 1000 (\<lambda>b. (0, True)) (newIMAPData\<lparr>i_readBuffer := ''a LOGIN {5}'' @ CRLF\<rparr>)
   = newIMAPData\<lparr>i_readBuffer := ''a LOGIN {5}'' @ CRLF\<rparr>"
proof -
  let ?rd = "\<lambda>b::string. (0::nat, True)"
  let ?s = "newIMAPData\<lparr>i_maybeProxy := False,
        i_readBuffer := ''a LOGIN u {4+}'' @ CRLF @ ''secr'' @ CRLF\<rparr>"
  let ?t = "newIMAPData\<lparr>i_readBuffer := ''a LOGIN u {4}'' @ CRLF @ ''se''\<rparr>"
  let ?t1 = "newIMAPData\<lparr>i_readBuffer := ''a LOGIN u {4}'' @ CRLF @ ''se'',
        i_maybeProxy := False\<rparr>"
  let ?x = "newIMAPData\<lparr>i_readBuffer :=
        v2sig @ [CHR 0x20, CHR 0x00, CHR 0x00, CHR 0x00] @ ''a LOGIN u {4}'' @ CRLF @ ''se''\<rparr>"
  let ?u = "newIMAPData\<lparr>i_readBuffer := ''a LOGIN {5}'' @ CRLF\<rparr>"
  have dg: "list_all is_digit ''4''" by (simp add: is_digit_def)
  have dv: "decimal 0 ''4'' = 4" by (simp add: digit_val_def)
  have s1: "maybeParseProxyLeader ?s = (True, ?s)"
    by (simp add: maybeParseProxyLeader_def)
  have s2: "\<not> i_readingLiteral ?s" "\<not> i_reader ?s"
    by (simp_all add: newIMAPData_def)
  have s4: "''a LOGIN u {4+}'' = ''a LOGIN u '' @ CHR ''{'' # ''4'' @ (if True then ''+'' else []) @ ''}''"
    by simp
  have s5: "''4'' \<noteq> []" by simp
  have s7: "decimal 0 ''4'' \<le> (1000::nat)" unfolding dv by simp
  have s8: "(1000::nat) < 2 ^ 32" by simp
  have s9: "length ''a LOGIN u '' + length ''4'' + 3 < (2::nat) ^ 32" by simp
  have s10: "find_crlf ''a LOGIN u {4+}'' = None" by simp
  have s11: "i_readBuffer ?s = ''a LOGIN u {4+}'' @ CRLF @ (''secr'' @ CRLF)"
    by (simp add: newIMAPData_def)
  note a = parse_literal [OF s1 s2 s4 s5 dg s7 s8 s9 s10 s11, of ?rd]
  let ?s2 = "?s\<lparr>i_readBuffer := CRLF, i_str := i_str ?s @ ''a LOGIN u {4+}'' @ CRLF @ ''secr'',
            i_readingLiteral := False, i_literalSize := decimal 0 ''4'',
            i_writeBuffer := i_writeBuffer ?s @
              (if True then [] else ''+ reading literal'' @ CRLF)\<rparr>"
  have a2: "parse 1000 ?rd ?s = parse 1000 ?rd ?s2"
  proof -
    have "''secr'' @ CRLF = ''secr'' @ CRLF \<and> length ''secr'' = decimal 0 ''4''"
      unfolding dv by simp
    with a show ?thesis by blast
  qed
  have np: "\<not> i_maybeProxy ?s2" "\<not> i_readingLiteral ?s2" "\<not> i_reader ?s2"
    "i_readBuffer ?s2 = CRLF"
    by (simp_all add: newIMAPData_def)
  have a3: "parse 1000 ?rd ?s2 =
      ?s2\<lparr>i_readBuffer := [], i_added := i_added ?s2 @ [i_str ?s2], i_str := []\<rparr>"
    unfolding parse_noproxy [OF np(1)] using np(2,3,4) by (rule parseLoop_last_line)
  have r1: "parse 1000 ?rd ?s =
      newIMAPData\<lparr>i_maybeProxy := False, i_literalSize := 4,
        i_added := [''a LOGIN u {4+}'' @ CRLF @ ''secr'']\<rparr>"
    unfolding a2 a3 by (simp add: newIMAPData_def digit_val_def)
  have t1: "maybeParseProxyLeader ?t = (True, ?t1)"
    by (simp add: maybeParseProxyLeader_def newIMAPData_def CRLF_def v2sig_def Let_def)
  have t2: "\<not> i_readingLiteral ?t1" "\<not> i_reader ?t1"
    by (simp_all add: newIMAPData_def)
  have t4: "''a LOGIN u {4}'' = ''a LOGIN u '' @ CHR ''{'' # ''4'' @ (if False then ''+'' else []) @ ''}''"
    by simp
  have t10: "find_crlf ''a LOGIN u {4}'' = None" by simp
  have t11: "i_readBuffer ?t1 = ''a LOGIN u {4}'' @ CRLF @ ''se''"
    by (simp add: newIMAPData_def)
  note b = parse_literal [OF t1 t2 t4 s5 dg s7 s8 s9 t10 t11, of ?rd]
  have sh: "length ''se'' < decimal 0 ''4''" unfolding dv by simp
  with b have b1: "parse 1000 ?rd ?t =
      ?t1\<lparr>i_readBuffer := ''se'', i_str := i_str ?t1 @ ''a LOGIN u {4}'' @ CRLF,
         i_readingLiteral := True, i_literalSize := decimal 0 ''4'',
         i_writeBuffer := i_writeBuffer ?t1 @
           (if False then [] else ''+ reading literal'' @ CRLF)\<rparr>"
    by blast
  have r2: "parse 1000 ?rd ?t =
      newIMAPData\<lparr>i_maybeProxy := False, i_readBuffer := ''se'',
        i_str := ''a LOGIN u {4}'' @ CRLF, i_readingLiteral := True, i_literalSize := 4,
        i_writeBuffer := ''+ reading literal'' @ CRLF\<rparr>"
    unfolding b1 by (simp add: newIMAPData_def digit_val_def)
  have x1: "maybeParseProxyLeader ?x = (True, ?t1)"
    by (simp add: maybeParseProxyLeader_def newIMAPData_def CRLF_def v2sig_def Let_def)
  note c = parse_literal [OF x1 t2 t4 s5 dg s7 s8 s9 t10 t11, of ?rd]
  from c sh have c1: "parse 1000 ?rd ?x =
      ?t1\<lparr>i_readBuffer := ''se'', i_str := i_str ?t1 @ ''a LOGIN u {4}'' @ CRLF,
         i_readingLiteral := True, i_literalSize := decimal 0 ''4'',
         i_writeBuffer := i_writeBuffer ?t1 @
           (if False then [] else ''+ reading literal'' @ CRLF)\<rparr>"
    by blast
  have r4: "parse 1000 ?rd ?x =
      newIMAPData\<lparr>i_maybeProxy := False, i_readBuffer := ''se'',
        i_str := ''a LOGIN u {4}'' @ CRLF, i_readingLiteral := True, i_literalSize := 4,
        i_writeBuffer := ''+ reading literal'' @ CRLF\<rparr>"
    unfolding c1 by (simp add: newIMAPData_def digit_val_def)
  have "maybeParseProxyLeader ?u = (False, ?u)"
    by (simp add: maybeParseProxyLeader_def newIMAPData_def CRLF_def)
  with b have r3: "parse 1000 ?rd ?u = ?u" by blast
  from r2 r4 r1 r3 show ?thesis by blast
qed

text \<open>
  The claim as stated fails: the first line of a connection, 13 octets with its CRLF,
  ends with the literal specification {5}, which has no plus sign and is within the
  limit; parse waits for 16 octets before it reads any line, and no continuation
  request is written.
\<close>

theorem parse_literal_counterexample:
  "endsWithLiteral ''a LOGIN {5}'' = Some (5, False)
   \<and> parse 1000 (\<lambda>b. (0, True)) (newIMAPData\<lparr>i_readBuffer := ''a LOGIN {5}'' @ CRLF\<rparr>)
     = newIMAPData\<lparr>i_readBuffer := ''a LOGIN {5}'' @ CRLF\<rparr>
   \<and> i_writeBuffer (parse 1000 (\<lambda>b. (0, True))
       (newIMAPData\<lparr>i_readBuffer := ''a LOGIN {5}'' @ CRLF\<rparr>)) = []"
proof -
  have "endsWithLiteral (''a LOGIN '' @ CHR ''{'' # ''5'' @ (if False then ''+'' else []) @ ''}'')
      = Some (decimal 0 ''5'', False)"
    by (rule endsWithLiteral_braces) (simp_all add: is_digit_def digit_val_def)
  then have a: "endsWithLiteral ''a LOGIN {5}'' = Some (5, False)"
    by (simp add: digit_val_def)
  have b: "parse 1000 (\<lambda>b. (0, True)) (newIMAPData\<lparr>i_readBuffer := ''a LOGIN {5}'' @ CRLF\<rparr>)
     = newIMAPData\<lparr>i_readBuffer := ''a LOGIN {5}'' @ CRLF\<rparr>"
    by (rule parse_waits_for_leader) (simp_all add: newIMAPData_def CRLF_def)
  have c: "i_writeBuffer (newIMAPData\<lparr>i_readBuffer := ''a LOGIN {5}'' @ CRLF\<rparr>) = []"
    by (simp add: newIMAPData_def)
  from a b c show ?thesis by simp
qed

subsection \<open>Overlong command lines\<close>

lemma parseCommand_too_long:
  "find_crlf (take 4096 (s_readBuffer t)) = None \<Longrightarrow> length (s_readBuffer t) > 4096 \<Longrightarrow>
   parseCommand t =
     t\<lparr>s_writeBuffer := s_writeBuffer t @
          ''500 Line too long (legal maximum is 998 bytes)'' @ CRLF,
       s_connection := Connection_Closing\<rparr>"
  by (simp add: parseCommand_def removeLine_def)

lemma no_CR_replicate: "CR \<notin> set (replicate n (CHR ''a''))"
  by simp

lemma not_v2sig: "take 12 (replicate 4097 (CHR ''a'')) \<noteq> v2sig"
proof -
  have "take 12 (replicate 4097 (CHR ''a'')) = replicate 12 (CHR ''a'')" by simp
  moreover have "hd (replicate 12 (CHR ''a'')) \<noteq> hd v2sig" by (simp add: v2sig_def)
  ultimately show ?thesis by metis
qed

lemma find_crlf_tl: "find_crlf (c # b) = None \<Longrightarrow> find_crlf b = None"
  by (cases b) (auto split: if_splits)

lemma find_crlf_drop: "find_crlf b = None \<Longrightarrow> find_crlf (drop k b) = None"
proof (induction k arbitrary: b)
  case 0
  then show ?case by simp
next
  case (Suc k)
  show ?case
  proof (cases b)
    case Nil
    then show ?thesis by simp
  next
    case (Cons c b')
    with Suc.prems have "find_crlf b' = None" by (simp only: find_crlf_tl)
    then have "find_crlf (drop k b') = None" by (rule Suc.IH)
    with Cons show ?thesis by simp
  qed
qed

text \<open>
  The PROXY leader is handled without writing to the client, without adding a command
  and without touching the connection; removing the leader cannot create a line.
\<close>

lemma maybeParseProxyLeader_quiet:
  assumes "maybeParseProxyLeader s = (cont, s1)"
  shows "i_writeBuffer s1 = i_writeBuffer s" "i_added s1 = i_added s"
    "i_connection s1 = i_connection s" "i_reader s1 = i_reader s"
    "i_state s1 = i_state s" "i_bytesArrived s1 = i_bytesArrived s"
    "find_crlf (i_readBuffer s) = None \<Longrightarrow> find_crlf (i_readBuffer s1) = None"
  using assms
  by (auto simp: maybeParseProxyLeader_def Let_def find_crlf_drop split: if_splits)

text \<open>
  Without a CRLF in the buffer the loop can at most move the octets of a pending
  literal to the command text; it returns as soon as it asks for a line.
\<close>

lemma parseLoop_quiet:
  assumes "\<not> i_reader s" "find_crlf (i_readBuffer s) = None"
  shows "i_writeBuffer (parseLoop limit rd s) = i_writeBuffer s
    \<and> i_added (parseLoop limit rd s) = i_added s
    \<and> i_connection (parseLoop limit rd s) = i_connection s
    \<and> i_state (parseLoop limit rd s) = i_state s
    \<and> i_bytesArrived (parseLoop limit rd s) = i_bytesArrived s
    \<and> \<not> i_reader (parseLoop limit rd s)"
proof (cases "i_readingLiteral s")
  case False
  with assms have "parseLoop limit rd s = s" by (intro parseLoop_no_line)
  with assms(1) show ?thesis by simp
next
  case True
  show ?thesis
  proof (cases "length (i_readBuffer s) < i_literalSize s")
    case True
    with \<open>i_readingLiteral s\<close> have "parseLoop limit rd s = s"
      by (subst parseLoop.simps) simp
    with assms(1) show ?thesis by simp
  next
    case False
    let ?s' = "s\<lparr>i_str := i_str s @ take (i_literalSize s) (i_readBuffer s),
                 i_readBuffer := drop (i_literalSize s) (i_readBuffer s),
                 i_readingLiteral := False\<rparr>"
    from False \<open>i_readingLiteral s\<close> have a: "parseLoop limit rd s = parseLoop limit rd ?s'"
      by (subst parseLoop.simps) simp
    have "find_crlf (i_readBuffer ?s') = None"
      using assms(2) by (simp add: find_crlf_drop)
    with assms(1) have b: "parseLoop limit rd ?s' = ?s'"
      by (intro parseLoop_no_line) simp_all
    show ?thesis unfolding a b using assms(1) by simp
  qed
qed

lemma parse_quiet:
  assumes "\<not> i_reader s" "find_crlf (i_readBuffer s) = None"
  shows "i_writeBuffer (parse limit rd s) = i_writeBuffer s
    \<and> i_added (parse limit rd s) = i_added s
    \<and> i_connection (parse limit rd s) = i_connection s
    \<and> i_state (parse limit rd s) = i_state s
    \<and> i_bytesArrived (parse limit rd s) = i_bytesArrived s
    \<and> \<not> i_reader (parse limit rd s)"
proof -
  obtain cont s1 where m: "maybeParseProxyLeader s = (cont, s1)"
    by (cases "maybeParseProxyLeader s")
  note q = maybeParseProxyLeader_quiet [OF m]
  show ?thesis
  proof (cases cont)
    case False
    with m have "parse limit rd s = s1" by (simp add: parse_def)
    with q assms(1) show ?thesis by simp
  next
    case True
    with m have p: "parse limit rd s = parseLoop limit rd s1" by (simp add: parse_def)
    from assms q have "\<not> i_reader s1" "find_crlf (i_readBuffer s1) = None" by simp_all
    then have "i_writeBuffer (parseLoop limit rd s1) = i_writeBuffer s1
      \<and> i_added (parseLoop limit rd s1) = i_added s1
      \<and> i_connection (parseLoop limit rd s1) = i_connection s1
      \<and> i_state (parseLoop limit rd s1) = i_state s1
      \<and> i_bytesArrived (parseLoop limit rd s1) = i_bytesArrived s1
      \<and> \<not> i_reader (parseLoop limit rd s1)"
      by (rule parseLoop_quiet)
    with p q show ?thesis by simp
  qed
qed

text \<open>
  The Read event on a buffer without CRLF: only the count of the octets that have
  arrived before login can end the connection.
\<close>

lemma reactRead_no_line:
  assumes "\<not> i_reader s" "find_crlf (i_readBuffer s) = None"
  shows "i_added (reactRead limit rd s) = i_added s"
    and "32768 < (i_bytesArrived s + length (i_readBuffer s)) mod 2 ^ 32 \<Longrightarrow>
         i_state s = NotAuthenticated \<Longrightarrow>
         i_writeBuffer (reactRead limit rd s) =
           i_writeBuffer s @ ''* BYE overlong login sequence'' @ CRLF
         \<and> i_connection (reactRead limit rd s) = Connection_Closing"
    and "\<not> (32768 < (i_bytesArrived s + length (i_readBuffer s)) mod 2 ^ 32 \<and>
            i_state s = NotAuthenticated) \<Longrightarrow>
         i_writeBuffer (reactRead limit rd s) = i_writeBuffer s
         \<and> i_connection (reactRead limit rd s) = i_connection s"
proof -
  let ?s0 = "s\<lparr>i_bytesArrived := (i_bytesArrived s + length (i_readBuffer s)) mod 2 ^ 32\<rparr>"
  have "\<not> i_reader ?s0" "find_crlf (i_readBuffer ?s0) = None" using assms by simp_all
  then have "i_writeBuffer (parse limit rd ?s0) = i_writeBuffer ?s0
    \<and> i_added (parse limit rd ?s0) = i_added ?s0
    \<and> i_connection (parse limit rd ?s0) = i_connection ?s0
    \<and> i_state (parse limit rd ?s0) = i_state ?s0
    \<and> i_bytesArrived (parse limit rd ?s0) = i_bytesArrived ?s0
    \<and> \<not> i_reader (parse limit rd ?s0)"
    by (rule parse_quiet)
  then have q: "i_writeBuffer (parse limit rd ?s0) = i_writeBuffer s"
    "i_added (parse limit rd ?s0) = i_added s"
    "i_connection (parse limit rd ?s0) = i_connection s"
    "i_state (parse limit rd ?s0) = i_state s"
    "i_bytesArrived (parse limit rd ?s0) = (i_bytesArrived s + length (i_readBuffer s)) mod 2 ^ 32"
    "\<not> i_reader (parse limit rd ?s0)"
    by simp_all
  show "i_added (reactRead limit rd s) = i_added s"
    using q by (simp add: reactRead_def Let_def feedReader_def)
  show "i_writeBuffer (reactRead limit rd s) =
           i_writeBuffer s @ ''* BYE overlong login sequence'' @ CRLF
         \<and> i_connection (reactRead limit rd s) = Connection_Closing"
    if "32768 < (i_bytesArrived s + length (i_readBuffer s)) mod 2 ^ 32"
      "i_state s = NotAuthenticated"
    using q that by (simp add: reactRead_def Let_def feedReader_def)
  show "i_writeBuffer (reactRead limit rd s) = i_writeBuffer s
         \<and> i_connection (reactRead limit rd s) = i_connection s"
    if "\<not> (32768 < (i_bytesArrived s + length (i_readBuffer s)) mod 2 ^ 32 \<and>
            i_state s = NotAuthenticated)"
    using q that by (simp add: reactRead_def Let_def feedReader_def)
qed

text \<open>
  Claim C4, as amended.  The SMTP server (SMTP, LMTP and Submit) limits a command line
  to 4096 octets: when more than 4096 octets are in the read buffer and no line ends
  within the first 4096, parseCommand writes
  \<open>500 Line too long (legal maximum is 998 bytes)\<close> and sets the connection to
  Closing.  The IMAP server does not limit the length of a line and never writes that
  reply: while no command has reserved the input and the read buffer contains no CRLF,
  IMAP::parse writes nothing to the client, hands no command line to addCommand and
  leaves the state of the connection as it is, however many octets have arrived, whether
  or not the PROXY leader has been settled and whether or not a literal is being read.
  Under the same conditions IMAP::react, on a Read event and before it calls
  runCommands, hands no command line to addCommand either, and it ends the connection
  only for the octets that arrive before login: when bytesArrived plus the size of the
  read buffer (modulo \<open>2 ^ 32\<close>) exceeds 32768 and the IMAP state is NotAuthenticated
  it writes \<open>* BYE overlong login sequence\<close> and sets the connection to Closing;
  otherwise it writes nothing and leaves the state of the connection as it is.
\<close>

theorem line_too_long:
  "(find_crlf (take 4096 (s_readBuffer t)) = None \<and> length (s_readBuffer t) > 4096 \<longrightarrow>
      parseCommand t =
        t\<lparr>s_writeBuffer := s_writeBuffer t @
             ''500 Line too long (legal maximum is 998 bytes)'' @ CRLF,
          s_connection := Connection_Closing\<rparr>)
   \<and> (\<not> i_reader s \<and> find_crlf (i_readBuffer s) = None \<longrightarrow>
        i_writeBuffer (parse limit rd s) = i_writeBuffer s
        \<and> i_added (parse limit rd s) = i_added s
        \<and> i_connection (parse limit rd s) = i_connection s)
   \<and> (\<not> i_reader s \<and> find_crlf (i_readBuffer s) = None \<longrightarrow>
        i_added (reactRead limit rd s) = i_added s
        \<and> (if 32768 < (i_bytesArrived s + length (i_readBuffer s)) mod 2 ^ 32
               \<and> i_state s = NotAuthenticated
           then i_writeBuffer (reactRead limit rd s) =
                  i_writeBuffer s @ ''* BYE overlong login sequence'' @ CRLF
                \<and> i_connection (reactRead limit rd s) = Connection_Closing
           else i_writeBuffer (reactRead limit rd s) = i_writeBuffer s
                \<and> i_connection (reactRead limit rd s) = i_connection s))"
proof (intro conjI impI)
  assume "find_crlf (take 4096 (s_readBuffer t)) = None \<and> length (s_readBuffer t) > 4096"
  then show "parseCommand t =
        t\<lparr>s_writeBuffer := s_writeBuffer t @
             ''500 Line too long (legal maximum is 998 bytes)'' @ CRLF,
          s_connection := Connection_Closing\<rparr>"
    using parseCommand_too_long [of t] by blast
next
  assume h: "\<not> i_reader s \<and> find_crlf (i_readBuffer s) = None"
  then have r: "\<not> i_reader s" and c: "find_crlf (i_readBuffer s) = None" by simp_all
  note q = parse_quiet [OF r c, of limit rd]
  from q show "i_writeBuffer (parse limit rd s) = i_writeBuffer s" by simp
  from q show "i_added (parse limit rd s) = i_added s" by simp
  from q show "i_connection (parse limit rd s) = i_connection s" by simp
next
  assume h: "\<not> i_reader s \<and> find_crlf (i_readBuffer s) = None"
  then have r: "\<not> i_reader s" and c: "find_crlf (i_readBuffer s) = None" by simp_all
  show "i_added (reactRead limit rd s) = i_added s"
    using r c by (rule reactRead_no_line(1))
  show "if 32768 < (i_bytesArrived s + length (i_readBuffer s)) mod 2 ^ 32
               \<and> i_state s = NotAuthenticated
           then i_writeBuffer (reactRead limit rd s) =
                  i_writeBuffer s @ ''* BYE overlong login sequence'' @ CRLF
                \<and> i_connection (reactRead limit rd s) = Connection_Closing
           else i_writeBuffer (reactRead limit rd s) = i_writeBuffer s
                \<and> i_connection (reactRead limit rd s) = i_connection s"
  proof (cases "32768 < (i_bytesArrived s + length (i_readBuffer s)) mod 2 ^ 32
               \<and> i_state s = NotAuthenticated")
    case True
    then have "i_writeBuffer (reactRead limit rd s) =
                  i_writeBuffer s @ ''* BYE overlong login sequence'' @ CRLF
                \<and> i_connection (reactRead limit rd s) = Connection_Closing"
      using reactRead_no_line(2) [OF r c, of limit rd] by blast
    with True show ?thesis by simp
  next
    case False
    then have "i_writeBuffer (reactRead limit rd s) = i_writeBuffer s
                \<and> i_connection (reactRead limit rd s) = i_connection s"
      by (rule reactRead_no_line(3) [OF r c])
    with False show ?thesis by simp
  qed
qed

theorem line_too_long_witness:
  "parseCommand \<lparr>s_readBuffer = replicate 4097 (CHR ''a''), s_writeBuffer = [],
       s_connection = Connection_Connected, s_commands = []\<rparr>
     = \<lparr>s_readBuffer = replicate 4097 (CHR ''a''),
        s_writeBuffer = ''500 Line too long (legal maximum is 998 bytes)'' @ CRLF,
        s_connection = Connection_Closing, s_commands = []\<rparr>
   \<and> i_writeBuffer (parse 10000 (\<lambda>b. (0, True))
       (newIMAPData\<lparr>i_maybeProxy := False, i_readingLiteral := True,
          i_literalSize := 4000, i_readBuffer := replicate 4097 (CHR ''a'')\<rparr>)) = []
   \<and> i_added (parse 10000 (\<lambda>b. (0, True))
       (newIMAPData\<lparr>i_maybeProxy := False, i_readingLiteral := True,
          i_literalSize := 4000, i_readBuffer := replicate 4097 (CHR ''a'')\<rparr>)) = []
   \<and> i_connection (parse 10000 (\<lambda>b. (0, True))
       (newIMAPData\<lparr>i_maybeProxy := False, i_readingLiteral := True,
          i_literalSize := 4000, i_readBuffer := replicate 4097 (CHR ''a'')\<rparr>)) = Connection_Connected
   \<and> i_writeBuffer (reactRead 10000 (\<lambda>b. (0, True))
       (newIMAPData\<lparr>i_maybeProxy := False, i_readingLiteral := True,
          i_literalSize := 4000, i_readBuffer := replicate 4097 (CHR ''a'')\<rparr>)) = []
   \<and> i_connection (reactRead 10000 (\<lambda>b. (0, True))
       (newIMAPData\<lparr>i_maybeProxy := False, i_readingLiteral := True,
          i_literalSize := 4000, i_readBuffer := replicate 4097 (CHR ''a'')\<rparr>)) = Connection_Connected
   \<and> i_writeBuffer (reactRead 10000 (\<lambda>b. (0, True))
       (newIMAPData\<lparr>i_readBuffer := replicate 32769 (CHR ''a'')\<rparr>))
     = ''* BYE overlong login sequence'' @ CRLF
   \<and> i_connection (reactRead 10000 (\<lambda>b. (0, True))
       (newIMAPData\<lparr>i_readBuffer := replicate 32769 (CHR ''a'')\<rparr>)) = Connection_Closing"
proof -
  let ?rd = "\<lambda>b::string. (0::nat, True)"
  let ?t = "\<lparr>s_readBuffer = replicate 4097 (CHR ''a''), s_writeBuffer = [],
       s_connection = Connection_Connected, s_commands = []\<rparr>"
  let ?s = "newIMAPData\<lparr>i_maybeProxy := False, i_readingLiteral := True,
          i_literalSize := 4000, i_readBuffer := replicate 4097 (CHR ''a'')\<rparr>"
  let ?u = "newIMAPData\<lparr>i_readBuffer := replicate 32769 (CHR ''a'')\<rparr>"
  note w = line_too_long [of ?t ?s 10000 ?rd]
  note v = line_too_long [of ?t ?u 10000 ?rd]
  have "CR \<notin> set (take 4096 (replicate 4097 (CHR ''a'')))" by simp
  then have t1: "find_crlf (take 4096 (s_readBuffer ?t)) = None"
    by (simp add: find_crlf_no_CR)
  have t2: "length (s_readBuffer ?t) > 4096" by simp
  have s1: "\<not> i_reader ?s" by (simp add: newIMAPData_def)
  have s2: "find_crlf (i_readBuffer ?s) = None"
    using no_CR_replicate [of 4097] by (simp add: find_crlf_no_CR)
  have s3: "\<not> (32768 < (i_bytesArrived ?s + length (i_readBuffer ?s)) mod 2 ^ 32
      \<and> i_state ?s = NotAuthenticated)"
    by (simp add: newIMAPData_def)
  have u1: "\<not> i_reader ?u" by (simp add: newIMAPData_def)
  have u2: "find_crlf (i_readBuffer ?u) = None"
    using no_CR_replicate [of 32769] by (simp add: find_crlf_no_CR)
  have u3: "32768 < (i_bytesArrived ?u + length (i_readBuffer ?u)) mod 2 ^ 32
      \<and> i_state ?u = NotAuthenticated"
    by (simp add: newIMAPData_def)
  have a: "parseCommand ?t =
      ?t\<lparr>s_writeBuffer := s_writeBuffer ?t @
             ''500 Line too long (legal maximum is 998 bytes)'' @ CRLF,
          s_connection := Connection_Closing\<rparr>"
    using w t1 t2 by blast
  have b: "i_writeBuffer (parse 10000 ?rd ?s) = i_writeBuffer ?s
      \<and> i_added (parse 10000 ?rd ?s) = i_added ?s
      \<and> i_connection (parse 10000 ?rd ?s) = i_connection ?s"
    using w s1 s2 by blast
  have "if 32768 < (i_bytesArrived ?s + length (i_readBuffer ?s)) mod 2 ^ 32
               \<and> i_state ?s = NotAuthenticated
           then i_writeBuffer (reactRead 10000 ?rd ?s) =
                  i_writeBuffer ?s @ ''* BYE overlong login sequence'' @ CRLF
                \<and> i_connection (reactRead 10000 ?rd ?s) = Connection_Closing
           else i_writeBuffer (reactRead 10000 ?rd ?s) = i_writeBuffer ?s
                \<and> i_connection (reactRead 10000 ?rd ?s) = i_connection ?s"
    using w s1 s2 by blast
  with s3 have d: "i_writeBuffer (reactRead 10000 ?rd ?s) = i_writeBuffer ?s
                \<and> i_connection (reactRead 10000 ?rd ?s) = i_connection ?s"
    by (simp only: if_False)
  have "if 32768 < (i_bytesArrived ?u + length (i_readBuffer ?u)) mod 2 ^ 32
               \<and> i_state ?u = NotAuthenticated
           then i_writeBuffer (reactRead 10000 ?rd ?u) =
                  i_writeBuffer ?u @ ''* BYE overlong login sequence'' @ CRLF
                \<and> i_connection (reactRead 10000 ?rd ?u) = Connection_Closing
           else i_writeBuffer (reactRead 10000 ?rd ?u) = i_writeBuffer ?u
                \<and> i_connection (reactRead 10000 ?rd ?u) = i_connection ?u"
    using v u1 u2 by blast
  with u3 have e: "i_writeBuffer (reactRead 10000 ?rd ?u) =
                  i_writeBuffer ?u @ ''* BYE overlong login sequence'' @ CRLF
                \<and> i_connection (reactRead 10000 ?rd ?u) = Connection_Closing"
    by (simp only: if_True)
  have c: "i_writeBuffer ?s = []" "i_added ?s = []" "i_connection ?s = Connection_Connected"
    "i_writeBuffer ?u = []"
    by (simp_all add: newIMAPData_def)
  from a b d e show ?thesis unfolding c by simp
qed

text \<open>
  The claim as stated fails: a new IMAP connection receives 4097 octets without CRLF;
  parse finds that they are no PROXY leader, finds no line, and returns, and react has
  counted 4097 octets, fewer than 32768.  Nothing has been written, the octets are
  still in the buffer, and the connection is still Connected.
\<close>

theorem IMAP_line_too_long_counterexample:
  "parse 1000 (\<lambda>b. (0, True)) (newIMAPData\<lparr>i_readBuffer := replicate 4097 (CHR ''a'')\<rparr>)
     = newIMAPData\<lparr>i_readBuffer := replicate 4097 (CHR ''a''), i_maybeProxy := False\<rparr>
   \<and> i_writeBuffer (parse 1000 (\<lambda>b. (0, True))
       (newIMAPData\<lparr>i_readBuffer := replicate 4097 (CHR ''a'')\<rparr>)) = []
   \<and> i_connection (parse 1000 (\<lambda>b. (0, True))
       (newIMAPData\<lparr>i_readBuffer := replicate 4097 (CHR ''a'')\<rparr>)) = Connection_Connected
   \<and> i_writeBuffer (reactRead 1000 (\<lambda>b. (0, True))
       (newIMAPData\<lparr>i_readBuffer := replicate 4097 (CHR ''a'')\<rparr>)) = []
   \<and> i_connection (reactRead 1000 (\<lambda>b. (0, True))
       (newIMAPData\<lparr>i_readBuffer := replicate 4097 (CHR ''a'')\<rparr>)) = Connection_Connected"
proof -
  let ?rd = "\<lambda>b::string. (0::nat, True)"
  let ?s = "newIMAPData\<lparr>i_readBuffer := replicate 4097 (CHR ''a'')\<rparr>"
  let ?s1 = "newIMAPData\<lparr>i_readBuffer := replicate 4097 (CHR ''a''), i_maybeProxy := False\<rparr>"
  have m: "maybeParseProxyLeader ?s = (True, ?s1)"
    by (simp add: maybeParseProxyLeader_def newIMAPData_def not_v2sig Let_def)
  have c: "find_crlf (i_readBuffer ?s1) = None"
    using no_CR_replicate [of 4097] by (simp add: find_crlf_no_CR)
  have "parseLoop 1000 ?rd ?s1 = ?s1"
    using c by (intro parseLoop_no_line) (simp_all add: newIMAPData_def)
  with m have p: "parse 1000 ?rd ?s = ?s1"
    by (simp add: parse_def)
  have r: "\<not> i_reader ?s" by (simp add: newIMAPData_def)
  have f: "find_crlf (i_readBuffer ?s) = None"
    using no_CR_replicate [of 4097] by (simp add: find_crlf_no_CR)
  have n: "\<not> (32768 < (i_bytesArrived ?s + length (i_readBuffer ?s)) mod 2 ^ 32
      \<and> i_state ?s = NotAuthenticated)"
    by (simp add: newIMAPData_def)
  have q: "i_writeBuffer (reactRead 1000 ?rd ?s) = i_writeBuffer ?s
      \<and> i_connection (reactRead 1000 ?rd ?s) = i_connection ?s"
    using n by (rule reactRead_no_line(3) [OF r f])
  have w: "i_writeBuffer ?s = []" "i_connection ?s = Connection_Connected"
    "i_writeBuffer ?s1 = []" "i_connection ?s1 = Connection_Connected"
    by (simp_all add: newIMAPData_def)
  from p q w show ?thesis by simp
qed


end
